theory Spec2Isabelle
  imports Complex_Main "HOL-Library.AList" "HOL-Library.Char_ord" "HOL-Library.List_Lexorder"
begin

section \<open>Grocery price tracker: price records, catalogue, filter and ranking\<close>

text \<open>
  The development follows \<^verbatim>\<open>src/app.py\<close>. Python's \<^verbatim>\<open>int\<close> is \<^typ>\<open>int\<close> and
  \<^verbatim>\<open>str\<close> is \<^typ>\<open>string\<close>. Every exception the code can raise is a value of
  \<open>error\<close>; a function that can raise returns \<open>error + 'a\<close>.

  A Python \<^verbatim>\<open>float\<close> is read as the \<^typ>\<open>real\<close> it denotes. Which exception the
  arithmetic raises, and when, is modelled as the interpreter decides it; the value of a
  product or quotient is the exact one, so rounding to a double, overflow to infinity,
  underflow to a signed zero and NaN are outside the records of the model. The
  statements about records therefore speak about exceptions, about the fields a record
  stores and about equality of unit prices, and give the value of a unit price only for
  the example sheets, where the double arithmetic is exact. What rounding does to the
  unit price is the subject of a separate definition, the unit price in double
  arithmetic.
\<close>

datatype error = IndexError | KeyError | ValueError | ZeroDivisionError | OverflowError

subsection \<open>The record \<^verbatim>\<open>GroceryPrice\<close>\<close>

record GroceryPrice =
  name :: string
  tags :: "string list"
  size' :: real
  denominator :: int
  unit :: string
  branch :: string
  price :: real
  unit_price :: real

text \<open>
  In \<^verbatim>\<open>price * denominator\<close> the integer is converted to a double first, and the
  conversion raises \<^verbatim>\<open>OverflowError\<close> when the integer rounds to \<open>2 ^ 1024\<close> or
  beyond, that is from \<open>2 ^ 1024 - 2 ^ 970\<close> on in absolute value.
\<close>

definition double_overflow :: int where
  "double_overflow = 2 ^ 1024 - 2 ^ 970"

definition int_as_double :: "int \<Rightarrow> error + real" where
  "int_as_double d =
     (if double_overflow \<le> \<bar>d\<bar> then Inl OverflowError else Inr (real_of_int d))"

text \<open>
  Float division: a divisor equal to zero raises \<^verbatim>\<open>ZeroDivisionError\<close>, whatever
  the dividend; no other divisor raises.
\<close>

definition py_truediv :: "real \<Rightarrow> real \<Rightarrow> error + real" where
  "py_truediv a b = (if b = 0 then Inl ZeroDivisionError else Inr (a / b))"

text \<open>
  The dataclass constructor followed by \<^verbatim>\<open>__post_init__\<close>:
  \<^verbatim>\<open>self.unit_price = self.price * self.denominator / self.size\<close>, the product
  first, then the quotient. Nothing else is checked.
\<close>

definition GroceryPrice_init ::
  "string \<Rightarrow> string list \<Rightarrow> real \<Rightarrow> int \<Rightarrow> string \<Rightarrow> string \<Rightarrow> real \<Rightarrow> error + GroceryPrice" where
  "GroceryPrice_init n ts s d u b p =
     (case int_as_double d of
        Inl e \<Rightarrow> Inl e
      | Inr df \<Rightarrow>
          (case py_truediv (p * df) s of
             Inl e \<Rightarrow> Inl e
           | Inr up \<Rightarrow> Inr \<lparr>name = n, tags = ts, size' = s, denominator = d, unit = u,
                            branch = b, price = p, unit_price = up\<rparr>))"

subsection \<open>The unit price in double arithmetic\<close>

text \<open>
  The value the interpreter computes for \<^verbatim>\<open>price * denominator / size\<close> is not the
  exact quotient: the integer is converted to a double, the product is rounded to a
  double, and so is the quotient. This subsection gives that value for the arguments a
  unit price is meant for, a finite price \<open>\<ge> 0\<close>, a denominator \<open>\<ge> 0\<close> and a finite
  size \<open>> 0\<close>; the price and the size passed to it stand for doubles. A finite
  double is the real it denotes; \<open>Inf\<close> is the positive infinity that a too large
  result rounds to.
\<close>

datatype double = Finite real | Inf

text \<open>The order \<^verbatim>\<open><=\<close> on these values.\<close>

fun double_le :: "double \<Rightarrow> double \<Rightarrow> bool" where
  "double_le (Finite a) (Finite b) = (a \<le> b)"
| "double_le x Inf = True"
| "double_le Inf (Finite b) = False"

text \<open>Rounding to the nearest integer, a tie to the even one.\<close>

definition round_half_even :: "real \<Rightarrow> int" where
  "round_half_even q =
     (let f = \<lfloor>q\<rfloor>; r = q - of_int f
      in if r < 1 / 2 then f else if 1 / 2 < r then f + 1 else if even f then f else f + 1)"

text \<open>
  The exponent of the unit in the last place of \<open>x \<ge> 0\<close>: the doubles between
  \<open>2 ^ e\<close> and \<open>2 ^ (e + 1)\<close> are the multiples of \<open>2 ^ (e - 52)\<close>, for \<open>e\<close> from
  \<open>- 1022\<close> to \<open>1023\<close>, and below \<open>2 ^ (- 1022)\<close> they are the multiples of
  \<open>2 ^ (- 1074)\<close>. The search goes down from the largest exponent.
\<close>

function ulp_search :: "int \<Rightarrow> real \<Rightarrow> int" where
  "ulp_search j x =
     (if j \<le> - 1074 then - 1074
      else if 2 powi (j + 52) \<le> x then j
      else ulp_search (j - 1) x)"
  by pat_completeness auto
termination
  by (relation "measure (\<lambda>(j, x). nat (j + 1074))") auto

declare ulp_search.simps [simp del]

definition ulp_exponent :: "real \<Rightarrow> int" where
  "ulp_exponent x = ulp_search 971 x"

text \<open>
  Rounding \<open>x \<ge> 0\<close> to the nearest double, a tie to the even significand; a result of
  \<open>2 ^ 1024\<close> or more is infinite.
\<close>

definition round_value :: "real \<Rightarrow> real" where
  "round_value x =
     (let u = 2 powi (ulp_exponent x) in of_int (round_half_even (x / u)) * u)"

definition round_double :: "real \<Rightarrow> double" where
  "round_double x = (let v = round_value x in if 2 ^ 1024 \<le> v then Inf else Finite v)"

text \<open>
  \<^verbatim>\<open>price * denominator / size\<close> in this arithmetic: the conversion of the
  denominator (which raises \<^verbatim>\<open>OverflowError\<close> when it rounds to infinity), the
  product, the test of the divisor, and the quotient. An infinite product divided by a
  finite positive size stays infinite.
\<close>

definition unit_price_double :: "real \<Rightarrow> int \<Rightarrow> real \<Rightarrow> error + double" where
  "unit_price_double p d s =
     (case round_double (real_of_int d) of
        Inf \<Rightarrow> Inl OverflowError
      | Finite dd \<Rightarrow>
          if s = 0 then Inl ZeroDivisionError
          else Inr (case round_double (p * dd) of
                      Inf \<Rightarrow> Inf
                    | Finite x \<Rightarrow> round_double (x / s)))"

text \<open>The reals that round to a normal finite double: no underflow and no overflow.\<close>

definition in_normal_range :: "real \<Rightarrow> bool" where
  "in_normal_range x \<longleftrightarrow> 2 powi (- 1022) \<le> x \<and> x < 2 ^ 1024 - 2 ^ 970"

subsection \<open>Indexing and splitting\<close>

text \<open>\<^verbatim>\<open>xs[i]\<close> for an index \<open>i \<ge> 0\<close>: out of range raises \<^verbatim>\<open>IndexError\<close>.\<close>

definition py_index :: "'a list \<Rightarrow> nat \<Rightarrow> error + 'a" where
  "py_index xs i = (if i < length xs then Inr (xs ! i) else Inl IndexError)"

text \<open>\<^verbatim>\<open>s.split(c)\<close> for a one-character separator: the empty string gives \<open>[[]]\<close>.\<close>

fun split_on :: "char \<Rightarrow> string \<Rightarrow> string list" where
  "split_on c [] = [[]]"
| "split_on c (x # xs) =
     (if x = c then [] # split_on c xs
      else (case split_on c xs of
              [] \<Rightarrow> [[x]]
            | w # ws \<Rightarrow> (x # w) # ws))"

subsection \<open>Ranking: \<^verbatim>\<open>get_cheapest_item_from_sorted\<close> and the slice in \<^verbatim>\<open>app\<close>\<close>

text \<open>
  \<^verbatim>\<open>[i for i in sorted_list if i.unit_price == sorted_list[0].unit_price]\<close>:
  the comprehension evaluates \<^verbatim>\<open>sorted_list[0]\<close> once for every element it visits,
  so the index is only read when there is an element.
\<close>

fun cheapest_loop :: "GroceryPrice list \<Rightarrow> GroceryPrice list \<Rightarrow> error + GroceryPrice list" where
  "cheapest_loop sorted_list [] = Inr []"
| "cheapest_loop sorted_list (i # rest) =
     (case py_index sorted_list 0 of
        Inl e \<Rightarrow> Inl e
      | Inr first \<Rightarrow>
          (case cheapest_loop sorted_list rest of
             Inl e \<Rightarrow> Inl e
           | Inr acc \<Rightarrow> Inr (if unit_price i = unit_price first then i # acc else acc)))"

definition get_cheapest_item_from_sorted :: "GroceryPrice list \<Rightarrow> error + GroceryPrice list" where
  "get_cheapest_item_from_sorted sorted_list = cheapest_loop sorted_list sorted_list"

text \<open>
  Lines 200-201 of \<^verbatim>\<open>app\<close>:
  \<^verbatim>\<open>cheapest_items = get_cheapest_item_from_sorted(filtered_items)\<close> and
  \<^verbatim>\<open>other_items = filtered_items[len(cheapest_items):]\<close>.
\<close>

definition rank_items :: "GroceryPrice list \<Rightarrow> error + (GroceryPrice list \<times> GroceryPrice list)" where
  "rank_items filtered_items =
     (case get_cheapest_item_from_sorted filtered_items of
        Inl e \<Rightarrow> Inl e
      | Inr cheapest_items \<Rightarrow> Inr (cheapest_items, drop (length cheapest_items) filtered_items))"

subsection \<open>Catalogue construction: \<^verbatim>\<open>read_prices_from_sheet\<close>\<close>

text \<open>
  The dictionary \<^verbatim>\<open>prices\<close> keeps insertion order, so it is an association list
  with distinct keys. The builtins \<^verbatim>\<open>float()\<close> and \<^verbatim>\<open>int()\<close> are parameters
  \<open>py_float\<close> and \<open>py_int\<close>: \<open>None\<close> stands for \<^verbatim>\<open>ValueError\<close>. The sheet
  contents returned by \<^verbatim>\<open>get_all_values()\<close> are the argument \<open>data\<close>.
\<close>

type_synonym prices = "(string \<times> GroceryPrice list) list"

definition ebind :: "error + 'a \<Rightarrow> ('a \<Rightarrow> error + 'b) \<Rightarrow> error + 'b" where
  "ebind m f = (case m of Inl e \<Rightarrow> Inl e | Inr x \<Rightarrow> f x)"

definition parsed :: "'a option \<Rightarrow> error + 'a" where
  "parsed r = (case r of None \<Rightarrow> Inl ValueError | Some v \<Rightarrow> Inr v)"

text \<open>\<^verbatim>\<open>if grocery_item not in prices: prices[grocery_item] = []\<close>\<close>

definition ensure_item :: "prices \<Rightarrow> string \<Rightarrow> prices" where
  "ensure_item prices grocery_item =
     (if map_of prices grocery_item = None then prices @ [(grocery_item, [])] else prices)"

text \<open>\<^verbatim>\<open>prices[grocery_item].append(g)\<close>\<close>

definition append_price :: "prices \<Rightarrow> string \<Rightarrow> GroceryPrice \<Rightarrow> error + prices" where
  "append_price prices grocery_item g =
     (case map_of prices grocery_item of
        None \<Rightarrow> Inl KeyError
      | Some items \<Rightarrow> Inr (AList.update grocery_item (items @ [g]) prices))"

text \<open>
  The call \<^verbatim>\<open>GroceryPrice(name=..., tags=..., size=float(row[2]), denominator=int(row[3]),
  unit=row[4], branch=header[5 + i], price=float(price))\<close>, its arguments evaluated in
  this order.
\<close>

definition new_price ::
  "(string \<Rightarrow> real option) \<Rightarrow> (string \<Rightarrow> int option) \<Rightarrow> string list \<Rightarrow> string list \<Rightarrow>
   string \<Rightarrow> string list \<Rightarrow> nat \<Rightarrow> string \<Rightarrow> error + GroceryPrice" where
  "new_price py_float py_int header row grocery_item options i price_cell =
     ebind (py_index row 2) (\<lambda>c2. ebind (parsed (py_float c2)) (\<lambda>s.
     ebind (py_index row 3) (\<lambda>c3. ebind (parsed (py_int c3)) (\<lambda>d.
     ebind (py_index row 4) (\<lambda>u.
     ebind (py_index header (5 + i)) (\<lambda>b.
     ebind (parsed (py_float price_cell)) (\<lambda>p.
       GroceryPrice_init grocery_item options s d u b p)))))))"

text \<open>The body of \<^verbatim>\<open>for i in range(len(row) - 5)\<close>: blank cells are skipped.\<close>

definition cell_step ::
  "(string \<Rightarrow> real option) \<Rightarrow> (string \<Rightarrow> int option) \<Rightarrow> string list \<Rightarrow> string list \<Rightarrow>
   string \<Rightarrow> string list \<Rightarrow> nat \<Rightarrow> prices \<Rightarrow> error + prices" where
  "cell_step py_float py_int header row grocery_item options i prices =
     ebind (py_index row (5 + i)) (\<lambda>price_cell.
       if price_cell \<noteq> []
       then ebind (new_price py_float py_int header row grocery_item options i price_cell)
              (\<lambda>g. append_price prices grocery_item g)
       else Inr prices)"

fun cells_loop ::
  "(string \<Rightarrow> real option) \<Rightarrow> (string \<Rightarrow> int option) \<Rightarrow> string list \<Rightarrow> string list \<Rightarrow>
   string \<Rightarrow> string list \<Rightarrow> nat list \<Rightarrow> prices \<Rightarrow> error + prices" where
  "cells_loop py_float py_int header row grocery_item options [] prices = Inr prices"
| "cells_loop py_float py_int header row grocery_item options (i # rest) prices =
     (case cell_step py_float py_int header row grocery_item options i prices of
        Inl e \<Rightarrow> Inl e
      | Inr prices' \<Rightarrow> cells_loop py_float py_int header row grocery_item options rest prices')"

text \<open>The body of \<^verbatim>\<open>for row in data[1:]\<close>.\<close>

definition row_step ::
  "(string \<Rightarrow> real option) \<Rightarrow> (string \<Rightarrow> int option) \<Rightarrow> string list \<Rightarrow> string list \<Rightarrow>
   prices \<Rightarrow> error + prices" where
  "row_step py_float py_int header row prices =
     ebind (py_index row 0) (\<lambda>grocery_item.
     ebind (py_index row 1) (\<lambda>c1.
       cells_loop py_float py_int header row grocery_item (split_on CHR ''|'' c1)
         [0 ..< length row - 5] (ensure_item prices grocery_item)))"

fun rows_loop ::
  "(string \<Rightarrow> real option) \<Rightarrow> (string \<Rightarrow> int option) \<Rightarrow> string list \<Rightarrow> string list list \<Rightarrow>
   prices \<Rightarrow> error + prices" where
  "rows_loop py_float py_int header [] prices = Inr prices"
| "rows_loop py_float py_int header (row # rest) prices =
     (case row_step py_float py_int header row prices of
        Inl e \<Rightarrow> Inl e
      | Inr prices' \<Rightarrow> rows_loop py_float py_int header rest prices')"

definition read_prices_from_sheet ::
  "(string \<Rightarrow> real option) \<Rightarrow> (string \<Rightarrow> int option) \<Rightarrow> string list list \<Rightarrow> error + prices" where
  "read_prices_from_sheet py_float py_int data =
     (case data of
        [] \<Rightarrow> Inl IndexError
      | header # rows \<Rightarrow> rows_loop py_float py_int header rows [])"

text \<open>
  \<^verbatim>\<open>grocery_items = list(prices.keys())\<close> and the options of the item select box,
  \<^verbatim>\<open>[""] + grocery_items\<close>.
\<close>

definition grocery_items :: "prices \<Rightarrow> string list" where
  "grocery_items prices = map fst prices"

definition selectbox_options :: "prices \<Rightarrow> string list" where
  "selectbox_options prices = [] # grocery_items prices"

subsection \<open>The filter of \<^verbatim>\<open>app\<close> (lines 189-198)\<close>

text \<open>
  \<^verbatim>\<open>np.intersect1d(a, b)\<close> returns the sorted, unique values that are in both
  arrays.
\<close>

definition intersect1d :: "string list \<Rightarrow> string list \<Rightarrow> string list" where
  "intersect1d ar1 ar2 = sort (remdups (filter (\<lambda>x. x \<in> set ar2) ar1))"

definition tag_match :: "string list \<Rightarrow> GroceryPrice \<Rightarrow> bool" where
  "tag_match selected_tags item \<longleftrightarrow>
     length (intersect1d (tags item) selected_tags) = length selected_tags"

fun filter_items :: "prices \<Rightarrow> string \<Rightarrow> string list \<Rightarrow> GroceryPrice list" where
  "filter_items [] selected_item selected_tags = []"
| "filter_items ((k, items) # rest) selected_item selected_tags =
     (if selected_item \<noteq> [] \<and> k \<noteq> selected_item
      then filter_items rest selected_item selected_tags
      else if selected_tags = []
      then items @ filter_items rest selected_item selected_tags
      else filter (tag_match selected_tags) items @ filter_items rest selected_item selected_tags)"

subsection \<open>The two forms of \<^verbatim>\<open>app\<close> that change the sheet (lines 241-280)\<close>

text \<open>
  The data frame \<^verbatim>\<open>df\<close> and the worksheet are state. The worksheet is outside the
  program: it is modelled by its contents (as a data frame), a count of the calls of
  \<^verbatim>\<open>set_with_dataframe\<close> and a count of the calls of \<^verbatim>\<open>get_all_records\<close>; the
  conversion of cell values on the way through the sheet is not modelled. The messages
  shown by \<^verbatim>\<open>st.error\<close> and \<^verbatim>\<open>st.success\<close> are collected in order.
\<close>

datatype cell = SCell string | FCell real | ICell int | NaNCell

record dataframe =
  columns :: "string list"
  rows :: "cell list list"

datatype message = st_error string | st_success string

record session =
  df :: dataframe
  worksheet :: dataframe
  writes :: nat
  reads :: nat
  messages :: "message list"

definition show_message :: "message \<Rightarrow> session \<Rightarrow> session" where
  "show_message m st = st\<lparr>messages := messages st @ [m]\<rparr>"

text \<open>\<^verbatim>\<open>set_with_dataframe(worksheet, df)\<close>\<close>

definition set_with_dataframe :: "session \<Rightarrow> session" where
  "set_with_dataframe st = st\<lparr>worksheet := df st, writes := Suc (writes st)\<rparr>"

text \<open>\<^verbatim>\<open>df = pd.DataFrame(worksheet.get_all_records())\<close>\<close>

definition reload_df :: "session \<Rightarrow> session" where
  "reload_df st = st\<lparr>df := worksheet st, reads := Suc (reads st)\<rparr>"

text \<open>\<^verbatim>\<open>s.strip()\<close>, for the ASCII whitespace characters.\<close>

definition is_space :: "char \<Rightarrow> bool" where
  "is_space c \<longleftrightarrow> (of_char c :: nat) \<in> {9, 10, 11, 12, 13, 28, 29, 30, 31, 32}"

definition strip :: "string \<Rightarrow> string" where
  "strip s = rev (dropWhile is_space (rev (dropWhile is_space s)))"

text \<open>
  \<^verbatim>\<open>pd.Series(data=..., index=df.columns)\<close> raises \<^verbatim>\<open>ValueError\<close> when the two
  lengths differ; \<^verbatim>\<open>df.append(new_row, ignore_index=True)\<close> adds the row at the end.
\<close>

definition append_item_row ::
  "string \<Rightarrow> string \<Rightarrow> real \<Rightarrow> int \<Rightarrow> string \<Rightarrow> session \<Rightarrow> error + session" where
  "append_item_row item_name options sz den un st =
     (let d = df st;
          new_row = [SCell item_name, SCell (strip options), FCell sz, ICell den, SCell un]
                    @ replicate (length (columns d) - 5) (SCell [])
      in if length new_row \<noteq> length (columns d) then Inl ValueError
         else Inr (st\<lparr>df := d\<lparr>rows := rows d @ [new_row]\<rparr>\<rparr>))"

text \<open>
  The form \<^verbatim>\<open>new_item_form\<close>. The write, the success message and the reload follow
  the \<^verbatim>\<open>if/elif/else\<close> chain at the indentation of the chain, inside
  \<^verbatim>\<open>if submit_button\<close>.
\<close>

definition new_item_form ::
  "string \<Rightarrow> string \<Rightarrow> real \<Rightarrow> int \<Rightarrow> string \<Rightarrow> bool \<Rightarrow> session \<Rightarrow> error + session" where
  "new_item_form item_name options sz den un submit_button st =
     (if submit_button
      then (case (if item_name = [] then Inr (show_message (st_error ''Item name cannot be empty!'') st)
                  else if un = [] then Inr (show_message (st_error ''Unit cannot be empty!'') st)
                  else append_item_row item_name options sz den un st) of
              Inl e \<Rightarrow> Inl e
            | Inr st1 \<Rightarrow>
                Inr (reload_df (show_message (st_success ''Sheet updated successfully!'')
                       (set_with_dataframe st1))))
      else Inr st)"

text \<open>\<^verbatim>\<open>df[name] = pd.Series(dtype=float)\<close>: a new column, empty in every row.\<close>

definition add_column :: "string \<Rightarrow> session \<Rightarrow> session" where
  "add_column branch_name st =
     (let d = df st
      in st\<lparr>df := d\<lparr>columns := columns d @ [branch_name],
                     rows := map (\<lambda>r. r @ [NaNCell]) (rows d)\<rparr>\<rparr>)"

text \<open>The form \<^verbatim>\<open>new_branch_form\<close>, with the same shape.\<close>

definition new_branch_form :: "string \<Rightarrow> bool \<Rightarrow> session \<Rightarrow> session" where
  "new_branch_form branch_name submit_button st =
     (if submit_button
      then (let st1 =
                  (if branch_name = []
                   then show_message (st_error ''Branch name cannot be empty!'') st
                   else if strip branch_name \<in> set (columns (df st))
                   then show_message (st_error (strip branch_name @ '' already exists!'')) st
                   else add_column (strip (strip branch_name)) st)
            in reload_df (show_message (st_success ''Sheet updated successfully!'')
                 (set_with_dataframe st1)))
      else st)"

subsection \<open>Predicates used in the statements\<close>



text \<open>Every branch price cell of the row (index 5 onwards) is the empty string.\<close>

definition blank_prices :: "string list \<Rightarrow> bool" where
  "blank_prices row \<longleftrightarrow> (\<forall>c \<in> set (drop 5 row). c = [])"

definition no_prices :: "prices \<Rightarrow> string \<Rightarrow> bool" where
  "no_prices ps k \<longleftrightarrow> map_of ps k = None \<or> map_of ps k = Some []"

subsection \<open>Plain decimal literals and example sheets\<close>

text \<open>
  An instance of the two parser parameters, for the examples: literals made of digits,
  or of digits, a point and digits, with an optional minus sign in front, such as
  \<^verbatim>\<open>1000\<close>, \<^verbatim>\<open>1.20\<close> and \<^verbatim>\<open>-500\<close>. On these it gives the number that
  \<^verbatim>\<open>float()\<close> and \<^verbatim>\<open>int()\<close> read; anything else is \<open>None\<close>.
\<close>

definition digit_of :: "char \<Rightarrow> nat option" where
  "digit_of c =
     (let k = (of_char c :: nat) in if 48 \<le> k \<and> k \<le> 57 then Some (k - 48) else None)"

fun digits_value :: "nat \<Rightarrow> string \<Rightarrow> nat option" where
  "digits_value acc [] = Some acc"
| "digits_value acc (c # cs) =
     (case digit_of c of None \<Rightarrow> None | Some k \<Rightarrow> digits_value (10 * acc + k) cs)"

definition decimal_nat :: "string \<Rightarrow> nat option" where
  "decimal_nat s = (if s = [] then None else digits_value 0 s)"

definition decimal_int :: "string \<Rightarrow> int option" where
  "decimal_int s =
     (case s of
        [] \<Rightarrow> None
      | c # cs \<Rightarrow> if c = CHR ''-'' then map_option (\<lambda>k. - int k) (decimal_nat cs)
                  else map_option int (decimal_nat s))"

definition decimal_unsigned :: "string \<Rightarrow> real option" where
  "decimal_unsigned s =
     (let ip = takeWhile (\<lambda>c. c \<noteq> CHR ''.'') s; rest = dropWhile (\<lambda>c. c \<noteq> CHR ''.'') s
      in case rest of
           [] \<Rightarrow> map_option real (decimal_nat ip)
         | _ # fp \<Rightarrow>
             (case (decimal_nat ip, decimal_nat fp) of
                (Some a, Some b) \<Rightarrow> Some (real a + real b / 10 ^ length fp)
              | _ \<Rightarrow> None))"

definition decimal_float :: "string \<Rightarrow> real option" where
  "decimal_float s =
     (case s of
        [] \<Rightarrow> None
      | c # cs \<Rightarrow> if c = CHR ''-'' then map_option uminus (decimal_unsigned cs)
                  else decimal_unsigned s)"

text \<open>
  The Milk example of the specification: two rows, Tesco at 1.20 for 1000 ml and Aldi at
  0.50 for 500 ml, both per 1000 ml.
\<close>

definition milk_sheet :: "string list list" where
  "milk_sheet =
     [[''Grocery Item'', ''Options'', ''Size'', ''Denominator'', ''Unit'', ''Tesco'', ''Aldi''],
      [''Milk'', ''dairy'', ''1000'', ''1000'', ''ml'', ''1.20'', []],
      [''Milk'', ''dairy'', ''500'', ''1000'', ''ml'', [], ''0.50'']]"

definition tesco_milk :: GroceryPrice where
  "tesco_milk = \<lparr>name = ''Milk'', tags = [''dairy''], size' = 1000, denominator = 1000,
     unit = ''ml'', branch = ''Tesco'', price = 6 / 5, unit_price = 6 / 5\<rparr>"

definition aldi_milk :: GroceryPrice where
  "aldi_milk = \<lparr>name = ''Milk'', tags = [''dairy''], size' = 500, denominator = 1000,
     unit = ''ml'', branch = ''Aldi'', price = 1 / 2, unit_price = 1\<rparr>"

text \<open>A sheet whose only data row has a negative size.\<close>

definition negative_sheet :: "string list list" where
  "negative_sheet =
     [[''Grocery Item'', ''Options'', ''Size'', ''Denominator'', ''Unit'', ''Aldi''],
      [''Milk'', ''dairy'', ''-500'', ''1000'', ''ml'', ''0.50'']]"

definition negative_milk :: GroceryPrice where
  "negative_milk = \<lparr>name = ''Milk'', tags = [''dairy''], size' = - 500, denominator = 1000,
     unit = ''ml'', branch = ''Aldi'', price = 1 / 2, unit_price = - 1\<rparr>"

text \<open>A sheet whose only data row has size zero.\<close>

definition zero_sheet :: "string list list" where
  "zero_sheet =
     [[''Grocery Item'', ''Options'', ''Size'', ''Denominator'', ''Unit'', ''Aldi''],
      [''Milk'', ''dairy'', ''0'', ''1000'', ''ml'', ''0.50'']]"

text \<open>One item priced at three branches; the first and the last price are equal.\<close>

definition milk_at :: "string \<Rightarrow> real \<Rightarrow> GroceryPrice" where
  "milk_at b p = \<lparr>name = ''Milk'', tags = [''dairy''], size' = 1000, denominator = 1000,
     unit = ''ml'', branch = b, price = p, unit_price = p\<rparr>"

definition three_branch_sheet :: "string list list" where
  "three_branch_sheet =
     [[''Grocery Item'', ''Options'', ''Size'', ''Denominator'', ''Unit'', ''Tesco'', ''Aldi'', ''Lidl''],
      [''Milk'', ''dairy'', ''1000'', ''1000'', ''ml'', ''1.00'', ''2.00'', ''1.00'']]"

text \<open>Three items that differ in their tags.\<close>

definition tagged :: "string \<Rightarrow> string list \<Rightarrow> GroceryPrice" where
  "tagged n ts = \<lparr>name = n, tags = ts, size' = 100, denominator = 100,
     unit = ''g'', branch = ''Tesco'', price = 1, unit_price = 1\<rparr>"

definition noodle_catalogue :: prices where
  "noodle_catalogue =
     [(''Udon'', [tagged ''Udon'' [''noodles'', ''udon'']]),
      (''Ramen'', [tagged ''Ramen'' [''noodles'']]),
      (''Rice'', [tagged ''Rice'' [''rice'']])]"

text \<open>
  A sheet whose second data row has no price at any branch (and no usable size or
  denominator either).
\<close>

definition blank_row_sheet :: "string list list" where
  "blank_row_sheet =
     [[''Grocery Item'', ''Options'', ''Size'', ''Denominator'', ''Unit'', ''Tesco'', ''Aldi''],
      [''Milk'', ''dairy'', ''1000'', ''1000'', ''ml'', ''1.20'', []],
      [''Bread'', ''bakery'', ''n/a'', [], ''g'', [], []]]"

text \<open>A session whose data frame already has a column \<^verbatim>\<open>Tesco\<close>.\<close>

definition tesco_frame :: dataframe where
  "tesco_frame =
     \<lparr>columns = [''Grocery Item'', ''Options'', ''Size'', ''Denominator'', ''Unit'', ''Tesco''],
      rows = [[SCell ''Milk'', SCell ''dairy'', ICell 1000, ICell 1000, SCell ''ml'', FCell (6 / 5)]]\<rparr>"

definition tesco_session :: session where
  "tesco_session =
     \<lparr>df = tesco_frame, worksheet = tesco_frame, writes = 0, reads = 1, messages = []\<rparr>"

section \<open>Evaluating the example sheets\<close>

lemmas sheet_eval = read_prices_from_sheet_def row_step_def cell_step_def new_price_def
  ebind_def parsed_def py_index_def ensure_item_def append_price_def GroceryPrice_init_def
  py_truediv_def int_as_double_def double_overflow_def decimal_float_def decimal_unsigned_def decimal_nat_def decimal_int_def
  digit_of_def upt_conv_Cons

lemma milk_sheet_read:
  "read_prices_from_sheet decimal_float decimal_int milk_sheet =
     Inr [(''Milk'', [tesco_milk, aldi_milk])]"
  by (simp add: milk_sheet_def tesco_milk_def aldi_milk_def sheet_eval)

lemma three_branch_sheet_read:
  "read_prices_from_sheet decimal_float decimal_int three_branch_sheet =
     Inr [(''Milk'', [milk_at ''Tesco'' 1, milk_at ''Aldi'' 2, milk_at ''Lidl'' 1])]"
  by (simp add: three_branch_sheet_def milk_at_def sheet_eval)

lemma blank_row_sheet_read:
  "read_prices_from_sheet decimal_float decimal_int blank_row_sheet =
     Inr [(''Milk'', [tesco_milk]), (''Bread'', [])]"
  by (simp add: blank_row_sheet_def tesco_milk_def sheet_eval)

section \<open>Properties of the ranking\<close>

lemma cheapest_loop_eq:
  "cheapest_loop (x # xs) ys = Inr (filter (\<lambda>i. unit_price i = unit_price x) ys)"
  by (induction ys) (simp_all add: py_index_def)

lemma get_cheapest_Cons:
  "get_cheapest_item_from_sorted (x # xs) =
     Inr (filter (\<lambda>i. unit_price i = unit_price x) (x # xs))"
  unfolding get_cheapest_item_from_sorted_def by (rule cheapest_loop_eq)

lemma get_cheapest_Nil: "get_cheapest_item_from_sorted [] = Inr []"
  by (simp add: get_cheapest_item_from_sorted_def)

text \<open>
  Claim C7. On the empty sequence the ranking returns two empty sequences and raises
  nothing: the comparison with \<^verbatim>\<open>sorted_list[0]\<close> is never evaluated.
\<close>

theorem rank_items_empty:
  "get_cheapest_item_from_sorted [] = Inr [] \<and> rank_items [] = Inr ([], [])"
  by (simp add: rank_items_def get_cheapest_Nil)

text \<open>
  Claim C8. Ranking is idempotent on its first output: for every input the ranking
  returns, and ranking the returned cheapest sequence again gives that whole sequence as
  cheapest and nothing else.
\<close>

theorem rank_items_idempotent:
  "\<exists>c others. rank_items xs = Inr (c, others) \<and> rank_items c = Inr (c, [])"
proof (cases xs)
  case Nil
  then show ?thesis by (simp add: rank_items_def get_cheapest_Nil)
next
  case (Cons x rest)
  let ?P = "\<lambda>i. unit_price i = unit_price x"
  let ?c = "x # filter ?P rest"
  have c: "get_cheapest_item_from_sorted xs = Inr ?c"
    using Cons by (simp add: get_cheapest_Cons)
  have cc: "get_cheapest_item_from_sorted ?c = Inr ?c"
    by (simp add: get_cheapest_Cons)
  show ?thesis using c cc by (simp add: rank_items_def)
qed

text \<open>
  What the function's name asks of its caller: on a sequence sorted by unit price the
  first output holds exactly the records of minimal unit price and the second exactly
  the others, in order.
\<close>

lemma drop_filter_sorted:
  "sorted (map f xs) \<Longrightarrow> \<forall>i \<in> set xs. v \<le> f i \<Longrightarrow>
   drop (length (filter (\<lambda>i. f i = v) xs)) xs = filter (\<lambda>i. f i \<noteq> v) xs"
proof (induction xs)
  case Nil
  then show ?case by simp
next
  case (Cons a xs)
  show ?case
  proof (cases "f a = v")
    case True
    with Cons show ?thesis by simp
  next
    case False
    from Cons.prems(2) have "v \<le> f a" by simp
    with False have "v < f a" by simp
    moreover from Cons.prems(1) have "\<forall>i \<in> set xs. f a \<le> f i" by simp
    ultimately have "\<forall>i \<in> set (a # xs). f i \<noteq> v" by auto
    then have "filter (\<lambda>i. f i = v) (a # xs) = []" "filter (\<lambda>i. f i \<noteq> v) (a # xs) = a # xs"
      by (simp_all add: filter_empty_conv filter_id_conv)
    then show ?thesis by simp
  qed
qed

lemma rank_items_sorted:
  fixes xs :: "GroceryPrice list"
  assumes "sorted (map unit_price xs)"
  shows "rank_items xs =
     Inr (filter (\<lambda>i. \<forall>j \<in> set xs. unit_price i \<le> unit_price j) xs,
          filter (\<lambda>i. \<not> (\<forall>j \<in> set xs. unit_price i \<le> unit_price j)) xs)"
proof (cases xs)
  case Nil
  then show ?thesis by (simp add: rank_items_def get_cheapest_Nil)
next
  case (Cons x rest)
  from assms Cons have low: "\<forall>i \<in> set xs. unit_price x \<le> unit_price i" by auto
  have x: "x \<in> set xs" using Cons by simp
  have eq: "(\<forall>j \<in> set xs. unit_price i \<le> unit_price j) \<longleftrightarrow> unit_price i = unit_price x"
    if "i \<in> set xs" for i
  proof
    assume "\<forall>j \<in> set xs. unit_price i \<le> unit_price j"
    with x have "unit_price i \<le> unit_price x" by blast
    moreover from low that have "unit_price x \<le> unit_price i" by blast
    ultimately show "unit_price i = unit_price x" by simp
  next
    assume "unit_price i = unit_price x"
    with low show "\<forall>j \<in> set xs. unit_price i \<le> unit_price j" by simp
  qed
  have c: "filter (\<lambda>i. \<forall>j \<in> set xs. unit_price i \<le> unit_price j) xs =
           filter (\<lambda>i. unit_price i = unit_price x) xs"
    by (rule filter_cong) (simp_all add: eq)
  have o: "filter (\<lambda>i. \<not> (\<forall>j \<in> set xs. unit_price i \<le> unit_price j)) xs =
           filter (\<lambda>i. unit_price i \<noteq> unit_price x) xs"
    by (rule filter_cong) (simp_all add: eq)
  have "get_cheapest_item_from_sorted xs = Inr (filter (\<lambda>i. unit_price i = unit_price x) xs)"
    using Cons by (simp add: get_cheapest_Cons)
  then show ?thesis
    unfolding c o rank_items_def using drop_filter_sorted[OF assms low] by simp
qed

text \<open>
  Claim C1 says that the cheapest sequence holds exactly the records of minimal unit
  price, and that for the Milk example (Tesco at 1.20 first, Aldi at 1.00 second) it is
  the Aldi record alone. \<^verbatim>\<open>app\<close> passes \<^verbatim>\<open>filtered_items\<close> unsorted, so the
  comparison is with the first record: on the Milk example the code returns the Tesco
  record as cheapest and the Aldi record among the others.
\<close>

theorem milk_example_cheapest_is_first:
  "read_prices_from_sheet decimal_float decimal_int milk_sheet =
     Inr [(''Milk'', [tesco_milk, aldi_milk])] \<and>
   filter_items [(''Milk'', [tesco_milk, aldi_milk])] ''Milk'' [] = [tesco_milk, aldi_milk] \<and>
   unit_price tesco_milk = 6 / 5 \<and> unit_price aldi_milk = 1 \<and>
   rank_items [tesco_milk, aldi_milk] = Inr ([tesco_milk], [aldi_milk])"
  by (simp add: milk_sheet_read rank_items_def get_cheapest_Cons) (simp add: tesco_milk_def aldi_milk_def)

text \<open>
  Claim C2 says that the two outputs partition the input. The second output is the
  slice after the first \<open>length cheapest\<close> records; on the unsorted prices 1, 2, 1 the
  record at 2 is in neither output and the last record is in both.
\<close>

theorem others_drops_and_repeats:
  "read_prices_from_sheet decimal_float decimal_int three_branch_sheet =
     Inr [(''Milk'', [milk_at ''Tesco'' 1, milk_at ''Aldi'' 2, milk_at ''Lidl'' 1])] \<and>
   rank_items [milk_at ''Tesco'' 1, milk_at ''Aldi'' 2, milk_at ''Lidl'' 1] =
     Inr ([milk_at ''Tesco'' 1, milk_at ''Lidl'' 1], [milk_at ''Lidl'' 1])"
  by (simp add: three_branch_sheet_read rank_items_def get_cheapest_Cons) (simp add: milk_at_def)

section \<open>Properties of the constructor\<close>

lemma GroceryPrice_init_Inr:
  "s \<noteq> 0 \<Longrightarrow> \<bar>d\<bar> < double_overflow \<Longrightarrow>
   GroceryPrice_init n ts s d u b p =
     Inr \<lparr>name = n, tags = ts, size' = s, denominator = d, unit = u, branch = b, price = p,
          unit_price = p * real_of_int d / s\<rparr>"
  by (simp add: GroceryPrice_init_def int_as_double_def py_truediv_def)


lemma GroceryPrice_init_zero:
  "GroceryPrice_init n ts 0 d u b p =
     Inl (if double_overflow \<le> \<bar>d\<bar> then OverflowError else ZeroDivisionError)"
  by (simp add: GroceryPrice_init_def int_as_double_def py_truediv_def)


text \<open>
  Claim C6 says that a size \<open>\<le> 0\<close> is rejected with an error. A negative size is
  accepted, by the constructor and by the load of a sheet, and gives a negative unit
  price.
\<close>

theorem negative_size_accepted:
  "GroceryPrice_init ''Milk'' [''dairy''] (- 500) 1000 ''ml'' ''Aldi'' (1 / 2) = Inr negative_milk \<and>
   unit_price negative_milk = - 1 \<and>
   read_prices_from_sheet decimal_float decimal_int negative_sheet =
     Inr [(''Milk'', [negative_milk])]"
  by (simp add: negative_sheet_def negative_milk_def sheet_eval)

text \<open>
  A priced row whose size reads as zero stops the load: the first non-blank price cell
  reaches the constructor, unless an earlier step has raised already.
\<close>

lemma new_price_size_zero:
  assumes "pf (row ! 2) = Some 0" and "2 < length row"
  shows "\<exists>e. new_price pf pn h row g opts i c = Inl e"
proof -
  from assms have "ebind (py_index row 2) (\<lambda>c2. parsed (pf c2)) = Inr 0"
    by (simp add: ebind_def py_index_def parsed_def)
  then show ?thesis
    by (auto simp: new_price_def ebind_def GroceryPrice_init_zero split: sum.splits)
qed

lemma cell_step_size_zero:
  assumes "pf (row ! 2) = Some 0" and "5 + i < length row" and "row ! (5 + i) \<noteq> []"
  shows "\<exists>e. cell_step pf pn h row g opts i ps = Inl e"
proof -
  from assms(1,2) obtain e where "new_price pf pn h row g opts i (row ! (5 + i)) = Inl e"
    using new_price_size_zero[of pf row pn h g opts i "row ! (5 + i)"] by auto
  with assms(2,3) show ?thesis
    by (simp add: cell_step_def ebind_def py_index_def)
qed

lemma cells_loop_size_zero:
  assumes "pf (row ! 2) = Some 0" and "5 + i < length row" and "row ! (5 + i) \<noteq> []"
  shows "i \<in> set is \<Longrightarrow> \<exists>e. cells_loop pf pn h row g opts is ps = Inl e"
proof (induction "is" arbitrary: ps)
  case Nil
  then show ?case by simp
next
  case (Cons j rest)
  show ?case
  proof (cases "cell_step pf pn h row g opts j ps")
    case (Inl e)
    then show ?thesis by simp
  next
    case (Inr ps1)
    with cell_step_size_zero[where pf = pf and row = row and i = i, OF assms, of pn h g opts ps]
    have "j \<noteq> i" by auto
    with Cons.prems have "i \<in> set rest" by simp
    from Cons.IH[OF this, of ps1] Inr show ?thesis by simp
  qed
qed

lemma row_step_size_zero:
  assumes "pf (row ! 2) = Some 0" and "\<not> blank_prices row"
  shows "\<exists>e. row_step pf pn h row ps = Inl e"
proof -
  from assms(2) obtain c where "c \<in> set (drop 5 row)" "c \<noteq> []"
    by (auto simp: blank_prices_def)
  then obtain i where i: "i < length (drop 5 row)" and c: "drop 5 row ! i \<noteq> []"
    by (auto simp: in_set_conv_nth)
  from i have len: "5 + i < length row" by simp
  with c have cell: "row ! (5 + i) \<noteq> []" by simp
  from i have mem: "i \<in> set [0 ..< length row - 5]" by simp
  from cells_loop_size_zero[where pf = pf and row = row and i = i, OF assms(1) len cell mem]
  obtain e where "cells_loop pf pn h row (row ! 0) (split_on CHR ''|'' (row ! 1))
      [0 ..< length row - 5] (ensure_item ps (row ! 0)) = Inl e"
    by blast
  with len show ?thesis by (auto simp: row_step_def ebind_def py_index_def)
qed

lemma rows_loop_size_zero:
  assumes "pf (row ! 2) = Some 0" and "\<not> blank_prices row"
  shows "row \<in> set rws \<Longrightarrow> \<exists>e. rows_loop pf pn h rws ps = Inl e"
proof (induction rws arbitrary: ps)
  case Nil
  then show ?case by simp
next
  case (Cons r rest)
  show ?case
  proof (cases "row_step pf pn h r ps")
    case (Inl e)
    then show ?thesis by simp
  next
    case (Inr ps1)
    with row_step_size_zero[where pf = pf and row = row, OF assms, of pn h ps]
    have "r \<noteq> row" by auto
    with Cons.prems have "row \<in> set rest" by simp
    from Cons.IH[OF this, of ps1] Inr show ?thesis by simp
  qed
qed

text \<open>
  Claim C6, amended. A size of zero makes the constructor raise: \<^verbatim>\<open>ZeroDivisionError\<close>
  from the division, or \<^verbatim>\<open>OverflowError\<close> from the product before it when the
  denominator is too large for a double; and a sheet with a priced row whose size reads
  as zero does not load. No other size is rejected, negative ones included: unless the
  denominator overflows, the constructor returns a record that stores the size as
  given, and the unit price can be negative, as it is (- 1) for size - 500,
  denominator 1000 and price 0.50.
\<close>

theorem GroceryPrice_init_size:
  "(s = 0 \<longrightarrow>
      GroceryPrice_init n ts s d u b p =
        Inl (if double_overflow \<le> \<bar>d\<bar> then OverflowError else ZeroDivisionError)) \<and>
   (s \<noteq> 0 \<and> \<bar>d\<bar> < double_overflow \<longrightarrow>
      (\<exists>r. GroceryPrice_init n ts s d u b p = Inr r \<and>
            size' r = s \<and> denominator r = d \<and> price r = p)) \<and>
   (\<exists>r. GroceryPrice_init n ts (- 500) 1000 u b (1 / 2) = Inr r \<and> unit_price r = - 1) \<and>
   (row \<in> set rws \<and> \<not> blank_prices row \<and> pf (row ! 2) = Some 0 \<longrightarrow>
      (\<exists>e. read_prices_from_sheet pf pn (header # rws) = Inl e))"
proof (intro conjI impI)
  assume "s = 0"
  then show "GroceryPrice_init n ts s d u b p =
        Inl (if double_overflow \<le> \<bar>d\<bar> then OverflowError else ZeroDivisionError)"
    by (simp add: GroceryPrice_init_zero)
next
  assume "s \<noteq> 0 \<and> \<bar>d\<bar> < double_overflow"
  then show "\<exists>r. GroceryPrice_init n ts s d u b p = Inr r \<and>
            size' r = s \<and> denominator r = d \<and> price r = p"
    by (simp add: GroceryPrice_init_Inr)
next
  show "\<exists>r. GroceryPrice_init n ts (- 500) 1000 u b (1 / 2) = Inr r \<and> unit_price r = - 1"
    by (simp add: GroceryPrice_init_Inr double_overflow_def)
next
  assume "row \<in> set rws \<and> \<not> blank_prices row \<and> pf (row ! 2) = Some 0"
  then show "\<exists>e. read_prices_from_sheet pf pn (header # rws) = Inl e"
    using rows_loop_size_zero[of pf row rws pn header "[]"]
    by (simp add: read_prices_from_sheet_def)
qed

text \<open>
  Size 0 with denominators 1000 and \<open>10 ^ 400\<close>, size - 500, and the sheet whose row has
  size 0.
\<close>

theorem GroceryPrice_init_size_witness:
  "GroceryPrice_init ''Milk'' [''dairy''] 0 1000 ''ml'' ''Aldi'' (1 / 2) = Inl ZeroDivisionError \<and>
   GroceryPrice_init ''Milk'' [''dairy''] 0 (10 ^ 400) ''ml'' ''Aldi'' (1 / 2) = Inl OverflowError \<and>
   (\<exists>r. GroceryPrice_init ''Milk'' [''dairy''] (- 500) 1000 ''ml'' ''Aldi'' (1 / 2) = Inr r \<and>
        size' r = - 500 \<and> denominator r = 1000 \<and> price r = 1 / 2) \<and>
   (\<exists>e. read_prices_from_sheet decimal_float decimal_int zero_sheet = Inl e)"
proof -
  have 1: "GroceryPrice_init ''Milk'' [''dairy''] 0 1000 ''ml'' ''Aldi'' (1 / 2) = Inl ZeroDivisionError"
    using GroceryPrice_init_size[where s = 0 and d = 1000 and n = "''Milk''" and ts = "[''dairy'']"
        and u = "''ml''" and b = "''Aldi''" and p = "1 / 2"]
    by (simp add: double_overflow_def)
  have 2: "GroceryPrice_init ''Milk'' [''dairy''] 0 (10 ^ 400) ''ml'' ''Aldi'' (1 / 2) = Inl OverflowError"
    using GroceryPrice_init_size[where s = 0 and d = "10 ^ 400" and n = "''Milk''"
        and ts = "[''dairy'']" and u = "''ml''" and b = "''Aldi''" and p = "1 / 2"]
    by (simp add: double_overflow_def)
  have h: "(- 500 :: real) \<noteq> 0 \<and> \<bar>1000 :: int\<bar> < double_overflow"
    by (simp add: double_overflow_def)
  with GroceryPrice_init_size[where s = "- 500" and d = 1000 and n = "''Milk''"
        and ts = "[''dairy'']" and u = "''ml''" and b = "''Aldi''" and p = "1 / 2"]
  have 3: "\<exists>r. GroceryPrice_init ''Milk'' [''dairy''] (- 500) 1000 ''ml'' ''Aldi'' (1 / 2) = Inr r \<and>
        size' r = - 500 \<and> denominator r = 1000 \<and> price r = 1 / 2"
    by blast
  let ?header = "[''Grocery Item'', ''Options'', ''Size'', ''Denominator'', ''Unit'', ''Aldi'']"
  let ?row = "[''Milk'', ''dairy'', ''0'', ''1000'', ''ml'', ''0.50'']"
  have r: "?row \<in> set [?row] \<and> \<not> blank_prices ?row \<and> decimal_float (?row ! 2) = Some 0"
    by (simp add: blank_prices_def decimal_float_def decimal_unsigned_def decimal_nat_def
          digit_of_def)
  with GroceryPrice_init_size[where row = ?row and rws = "[?row]" and pf = decimal_float
        and pn = decimal_int and header = ?header]
  have "\<exists>e. read_prices_from_sheet decimal_float decimal_int (?header # [?row]) = Inl e"
    by blast
  then have 4: "\<exists>e. read_prices_from_sheet decimal_float decimal_int zero_sheet = Inl e"
    by (simp add: zero_sheet_def)
  from 1 2 3 4 show ?thesis by blast
qed

section \<open>Properties of the unit price in double arithmetic\<close>

subsection \<open>The exponent search and the rounding\<close>

lemma ulp_search_spec:
  "- 1074 \<le> j \<Longrightarrow>
   - 1074 \<le> ulp_search j x \<and> ulp_search j x \<le> j \<and>
   (- 1074 < ulp_search j x \<longrightarrow> 2 powi (ulp_search j x + 52) \<le> x) \<and>
   (ulp_search j x < j \<longrightarrow> x < 2 powi (ulp_search j x + 53))"
proof (induction j x rule: ulp_search.induct)
  case (1 j x)
  show ?case
  proof (cases "j \<le> - 1074")
    case True
    then have "ulp_search j x = - 1074" by (subst ulp_search.simps) simp
    with "1.prems" True show ?thesis by simp
  next
    case False
    show ?thesis
    proof (cases "2 powi (j + 52) \<le> x")
      case True
      with False have "ulp_search j x = j" by (subst ulp_search.simps) simp
      with "1.prems" True show ?thesis by simp
    next
      case lt: False
      from False lt have eq: "ulp_search j x = ulp_search (j - 1) x"
        by (subst ulp_search.simps) simp
      from False have "- 1074 \<le> j - 1" by simp
      from "1.IH"[OF False lt this]
      have ih: "- 1074 \<le> ulp_search (j - 1) x" "ulp_search (j - 1) x \<le> j - 1"
        "- 1074 < ulp_search (j - 1) x \<longrightarrow> 2 powi (ulp_search (j - 1) x + 52) \<le> x"
        "ulp_search (j - 1) x < j - 1 \<longrightarrow> x < 2 powi (ulp_search (j - 1) x + 53)"
        by simp_all
      have "x < 2 powi (ulp_search (j - 1) x + 53)"
      proof (cases "ulp_search (j - 1) x < j - 1")
        case True
        with ih(4) show ?thesis by simp
      next
        case False
        with ih(2) have "ulp_search (j - 1) x = j - 1" by simp
        with lt show ?thesis by (simp add: add.commute)
      qed
      with ih show ?thesis unfolding eq by simp
    qed
  qed
qed

lemma ulp_exponent_range: "- 1074 \<le> ulp_exponent x" "ulp_exponent x \<le> 971"
  using ulp_search_spec[of 971 x] by (simp_all add: ulp_exponent_def)

lemma ulp_exponent_lower: "- 1074 < ulp_exponent x \<Longrightarrow> 2 powi (ulp_exponent x + 52) \<le> x"
  using ulp_search_spec[of 971 x] by (simp add: ulp_exponent_def)

lemma ulp_exponent_upper: "ulp_exponent x < 971 \<Longrightarrow> x < 2 powi (ulp_exponent x + 53)"
  using ulp_search_spec[of 971 x] by (simp add: ulp_exponent_def)

lemma pow2_mono: "i \<le> j \<Longrightarrow> (2::real) powi i \<le> 2 powi j"
  by (rule power_int_increasing) simp_all

lemma ulp_exponent_mono:
  assumes "x \<le> y"
  shows "ulp_exponent x \<le> ulp_exponent y"
proof (rule ccontr)
  assume "\<not> ulp_exponent x \<le> ulp_exponent y"
  then have lt: "ulp_exponent y < ulp_exponent x" by simp
  with ulp_exponent_range(1)[of y] have "- 1074 < ulp_exponent x" by simp
  then have "2 powi (ulp_exponent x + 52) \<le> x" by (rule ulp_exponent_lower)
  moreover from lt ulp_exponent_range(2)[of x] have "ulp_exponent y < 971" by simp
  then have "y < 2 powi (ulp_exponent y + 53)" by (rule ulp_exponent_upper)
  moreover from lt have "(2::real) powi (ulp_exponent y + 53) \<le> 2 powi (ulp_exponent x + 52)"
    by (intro pow2_mono) simp
  ultimately show False using assms by simp
qed

lemma ulp_exponent_eqI:
  assumes "- 1074 \<le> j" "j \<le> 971"
    and lo: "- 1074 < j \<Longrightarrow> 2 powi (j + 52) \<le> x"
    and hi: "j < 971 \<Longrightarrow> x < 2 powi (j + 53)"
  shows "ulp_exponent x = j"
proof (rule antisym)
  show "ulp_exponent x \<le> j"
  proof (rule ccontr)
    assume "\<not> ulp_exponent x \<le> j"
    then have lt: "j < ulp_exponent x" by simp
    with assms(1) have "- 1074 < ulp_exponent x" by simp
    then have "2 powi (ulp_exponent x + 52) \<le> x" by (rule ulp_exponent_lower)
    moreover from lt ulp_exponent_range(2)[of x] have "j < 971" by simp
    then have "x < 2 powi (j + 53)" by (rule hi)
    moreover from lt have "(2::real) powi (j + 53) \<le> 2 powi (ulp_exponent x + 52)"
      by (intro pow2_mono) simp
    ultimately show False by simp
  qed
next
  show "j \<le> ulp_exponent x"
  proof (rule ccontr)
    assume "\<not> j \<le> ulp_exponent x"
    then have lt: "ulp_exponent x < j" by simp
    with ulp_exponent_range(1)[of x] have "- 1074 < j" by simp
    then have "2 powi (j + 52) \<le> x" by (rule lo)
    moreover from lt assms(2) have "ulp_exponent x < 971" by simp
    then have "x < 2 powi (ulp_exponent x + 53)" by (rule ulp_exponent_upper)
    moreover from lt have "(2::real) powi (ulp_exponent x + 53) \<le> 2 powi (j + 52)"
      by (intro pow2_mono) simp
    ultimately show False by simp
  qed
qed

lemma round_half_even_bounds:
  "of_int (round_half_even q) \<le> q + 1 / 2" "q - 1 / 2 \<le> of_int (round_half_even q)"
  "\<lfloor>q\<rfloor> \<le> round_half_even q" "round_half_even q \<le> \<lfloor>q\<rfloor> + 1"
  unfolding round_half_even_def Let_def by (auto intro: order_trans[OF _ of_int_floor_le]) linarith+

lemma round_half_even_mono:
  assumes "q \<le> q'"
  shows "round_half_even q \<le> round_half_even q'"
proof (cases "\<lfloor>q\<rfloor> = \<lfloor>q'\<rfloor>")
  case True
  with assms have "q - of_int \<lfloor>q\<rfloor> \<le> q' - of_int \<lfloor>q'\<rfloor>" by simp
  with True show ?thesis unfolding round_half_even_def Let_def by auto
next
  case False
  with assms have "\<lfloor>q\<rfloor> < \<lfloor>q'\<rfloor>" using floor_mono[OF assms] by simp
  then have "\<lfloor>q\<rfloor> + 1 \<le> \<lfloor>q'\<rfloor>" by simp
  with round_half_even_bounds(4)[of q] round_half_even_bounds(3)[of q'] show ?thesis by simp
qed

lemma round_half_even_of_int [simp]: "round_half_even (of_int n) = n"
  by (simp add: round_half_even_def)

lemma round_half_even_le: "q \<le> of_int n \<Longrightarrow> round_half_even q \<le> n"
  using round_half_even_mono[of q "of_int n"] by simp

lemma round_half_even_ge: "of_int n \<le> q \<Longrightarrow> n \<le> round_half_even q"
  using round_half_even_mono[of "of_int n" q] by simp

lemma round_value_nonneg: "0 \<le> x \<Longrightarrow> 0 \<le> round_value x"
proof -
  assume "0 \<le> x"
  then have "of_int 0 \<le> x / 2 powi (ulp_exponent x)" by simp
  then have "0 \<le> round_half_even (x / 2 powi (ulp_exponent x))" by (rule round_half_even_ge)
  then show ?thesis by (simp add: round_value_def Let_def)
qed

lemma round_value_le_binade:
  assumes "ulp_exponent x < 971"
  shows "round_value x \<le> 2 powi (ulp_exponent x + 53)"
proof -
  let ?e = "ulp_exponent x"
  have u: "(0::real) < 2 powi ?e" by simp
  from assms have "x < 2 powi (?e + 53)" by (rule ulp_exponent_upper)
  also have "(2::real) powi (?e + 53) = 2 ^ 53 * 2 powi ?e"
    by (simp add: power_int_add)
  finally have "x / 2 powi ?e \<le> of_int (2 ^ 53)"
    using u by (simp add: pos_divide_le_eq)
  then have "round_half_even (x / 2 powi ?e) \<le> 2 ^ 53" by (rule round_half_even_le)
  then have "(of_int (round_half_even (x / 2 powi ?e)) :: real) \<le> of_int (2 ^ 53)"
    by (rule of_int_le_iff[THEN iffD2])
  then have "of_int (round_half_even (x / 2 powi ?e)) * 2 powi ?e \<le> 2 ^ 53 * (2::real) powi ?e"
    using u by (simp add: mult_right_mono)
  then show ?thesis by (simp add: round_value_def Let_def power_int_add)
qed

lemma round_value_ge_binade:
  assumes "- 1074 < ulp_exponent x"
  shows "2 powi (ulp_exponent x + 52) \<le> round_value x"
proof -
  let ?e = "ulp_exponent x"
  have u: "(0::real) < 2 powi ?e" by simp
  from assms have "2 powi (?e + 52) \<le> x" by (rule ulp_exponent_lower)
  moreover have "(2::real) powi (?e + 52) = 2 ^ 52 * 2 powi ?e"
    by (simp add: power_int_add)
  ultimately have "of_int (2 ^ 52) \<le> x / 2 powi ?e"
    using u by (simp add: pos_le_divide_eq)
  then have "2 ^ 52 \<le> round_half_even (x / 2 powi ?e)" by (rule round_half_even_ge)
  then have "(of_int (2 ^ 52) :: real) \<le> of_int (round_half_even (x / 2 powi ?e))"
    by (rule of_int_le_iff[THEN iffD2])
  then have "2 ^ 52 * (2::real) powi ?e \<le> of_int (round_half_even (x / 2 powi ?e)) * 2 powi ?e"
    using u by (simp add: mult_right_mono)
  then show ?thesis by (simp add: round_value_def Let_def power_int_add)
qed

lemma round_value_mono:
  assumes "x \<le> y"
  shows "round_value x \<le> round_value y"
proof (cases "ulp_exponent x = ulp_exponent y")
  case True
  let ?u = "(2::real) powi (ulp_exponent y)"
  have u: "0 < ?u" by simp
  from assms u have "x / ?u \<le> y / ?u" by (simp add: divide_right_mono)
  then have "round_half_even (x / ?u) \<le> round_half_even (y / ?u)" by (rule round_half_even_mono)
  then have "(of_int (round_half_even (x / ?u)) :: real) \<le> of_int (round_half_even (y / ?u))"
    by simp
  then have "of_int (round_half_even (x / ?u)) * ?u \<le> of_int (round_half_even (y / ?u)) * ?u"
    using u by (simp add: mult_right_mono)
  with True show ?thesis by (simp add: round_value_def Let_def)
next
  case False
  with ulp_exponent_mono[OF assms] have lt: "ulp_exponent x < ulp_exponent y" by simp
  with ulp_exponent_range(2)[of y] have "ulp_exponent x < 971" by simp
  then have "round_value x \<le> 2 powi (ulp_exponent x + 53)" by (rule round_value_le_binade)
  also from lt have "(2::real) powi (ulp_exponent x + 53) \<le> 2 powi (ulp_exponent y + 52)"
    by (intro pow2_mono) simp
  also from lt ulp_exponent_range(1)[of x] have "- 1074 < ulp_exponent y" by simp
  then have "2 powi (ulp_exponent y + 52) \<le> round_value y" by (rule round_value_ge_binade)
  finally show ?thesis .
qed

lemma round_double_mono: "x \<le> y \<Longrightarrow> double_le (round_double x) (round_double y)"
  using round_value_mono[of x y] by (auto simp: round_double_def Let_def)

lemma round_half_even_below:
  assumes "q < of_int n + 1 / 2"
  shows "round_half_even q \<le> n"
proof (cases "\<lfloor>q\<rfloor> < n")
  case True
  with round_half_even_bounds(4)[of q] show ?thesis by simp
next
  case False
  from assms have "\<lfloor>q\<rfloor> \<le> n" by linarith
  with False have f: "\<lfloor>q\<rfloor> = n" by simp
  with assms have "q - of_int \<lfloor>q\<rfloor> < 1 / 2" by simp
  with f show ?thesis by (simp add: round_half_even_def Let_def)
qed

lemma round_half_even_above:
  assumes "of_int n - 1 / 2 \<le> q" and "even n"
  shows "n \<le> round_half_even q"
proof (cases "of_int n \<le> q")
  case True
  then show ?thesis by (rule round_half_even_ge)
next
  case False
  with assms(1) have f: "\<lfloor>q\<rfloor> = n - 1" by linarith
  with assms(1) have r: "1 / 2 \<le> q - of_int \<lfloor>q\<rfloor>" by simp
  from assms(2) have "odd (n - 1)" by simp
  with f r show ?thesis by (auto simp: round_half_even_def Let_def)
qed

lemma ulp_exponent_top: "2 ^ 1023 \<le> x \<Longrightarrow> ulp_exponent x = 971"
  by (rule ulp_exponent_eqI) simp_all

lemma round_value_overflow_iff: "2 ^ 1024 \<le> round_value x \<longleftrightarrow> 2 ^ 1024 - 2 ^ 970 \<le> x"
proof
  assume big: "2 ^ 1024 - 2 ^ 970 \<le> x"
  then have "2 ^ 1023 \<le> x" by simp
  then have e: "ulp_exponent x = 971" by (rule ulp_exponent_top)
  from big have "(2 ^ 1024 - 2 ^ 970) / 2 ^ 971 \<le> x / 2 ^ 971" by (simp add: divide_right_mono)
  then have "of_int (2 ^ 53) - 1 / 2 \<le> x / 2 ^ 971" by simp
  then have "2 ^ 53 \<le> round_half_even (x / 2 ^ 971)" by (rule round_half_even_above) simp
  then have "(of_int (2 ^ 53) :: real) \<le> of_int (round_half_even (x / 2 ^ 971))"
    by (rule of_int_le_iff[THEN iffD2])
  then have "2 ^ 53 * (2::real) ^ 971 \<le> of_int (round_half_even (x / 2 ^ 971)) * 2 ^ 971"
    by (simp add: mult_right_mono)
  with e show "2 ^ 1024 \<le> round_value x" by (simp add: round_value_def Let_def)
next
  assume over: "2 ^ 1024 \<le> round_value x"
  show "2 ^ 1024 - 2 ^ 970 \<le> x"
  proof (rule ccontr)
    assume "\<not> 2 ^ 1024 - 2 ^ 970 \<le> x"
    then have small: "x < 2 ^ 1024 - 2 ^ 970" by simp
    show False
    proof (cases "ulp_exponent x < 971")
      case True
      then have "round_value x \<le> 2 powi (ulp_exponent x + 53)" by (rule round_value_le_binade)
      also from True have "(2::real) powi (ulp_exponent x + 53) \<le> 2 powi 1023"
        by (intro pow2_mono) simp
      finally show False using over by simp
    next
      case False
      with ulp_exponent_range(2)[of x] have e: "ulp_exponent x = 971" by simp
      from small have "x / 2 ^ 971 < (2 ^ 1024 - 2 ^ 970) / 2 ^ 971"
        by (simp add: divide_strict_right_mono)
      then have "x / 2 ^ 971 < of_int (2 ^ 53 - 1) + 1 / 2" by simp
      then have "round_half_even (x / 2 ^ 971) \<le> 2 ^ 53 - 1" by (rule round_half_even_below)
      then have "(of_int (round_half_even (x / 2 ^ 971)) :: real) \<le> of_int (2 ^ 53 - 1)"
        by (rule of_int_le_iff[THEN iffD2])
      then have "of_int (round_half_even (x / 2 ^ 971)) * (2::real) ^ 971 \<le> (2 ^ 53 - 1) * 2 ^ 971"
        by (simp add: mult_right_mono)
      with e have "round_value x \<le> (2 ^ 53 - 1) * 2 ^ 971" by (simp add: round_value_def Let_def)
      with over show False by simp
    qed
  qed
qed

lemma round_double_Inf_iff: "round_double x = Inf \<longleftrightarrow> 2 ^ 1024 - 2 ^ 970 \<le> x"
  using round_value_overflow_iff[of x] by (simp add: round_double_def Let_def)



lemma round_double_int:
  "round_double (real_of_int d) = Inf \<longleftrightarrow> double_overflow \<le> d"
proof -
  have "(2 ^ 1024 - 2 ^ 970 \<le> real_of_int d) = (real_of_int (2 ^ 1024 - 2 ^ 970) \<le> real_of_int d)"
    by simp
  also have "\<dots> = (2 ^ 1024 - 2 ^ 970 \<le> d)" by (rule of_int_le_iff)
  finally show ?thesis by (simp add: round_double_Inf_iff double_overflow_def)
qed

lemma round_double_Finite_nonneg: "round_double x = Finite v \<Longrightarrow> 0 \<le> x \<Longrightarrow> 0 \<le> v"
  using round_value_nonneg[of x] by (auto simp: round_double_def Let_def split: if_splits)

lemma double_le_refl: "double_le v v"
  by (cases v) simp_all

lemma quotient_mono:
  assumes "double_le a a'" and "0 < s"
  shows "double_le (case a of Inf \<Rightarrow> Inf | Finite x \<Rightarrow> round_double (x / s))
                   (case a' of Inf \<Rightarrow> Inf | Finite x \<Rightarrow> round_double (x / s))"
proof (cases a')
  case Inf
  then show ?thesis by simp
next
  case (Finite y)
  with assms(1) obtain x where a: "a = Finite x" and "x \<le> y" by (cases a) simp_all
  with assms(2) have "x / s \<le> y / s" by (simp add: divide_right_mono)
  then show ?thesis unfolding a Finite by (simp add: round_double_mono)
qed

subsection \<open>Scaling by a power of two\<close>

lemma pow2_less_imp_less:
  assumes "(2::real) powi i < 2 powi j"
  shows "i < j"
proof (rule ccontr)
  assume "\<not> i < j"
  then have "(2::real) powi j \<le> 2 powi i" by (intro pow2_mono) simp
  with assms show False by simp
qed

lemma ulp_exponent_scale:
  assumes lo: "2 powi (- 1022) \<le> x" and hi: "x < 2 ^ 1024"
    and lo': "2 powi (- 1022) \<le> 2 powi j * x" and hi': "2 powi j * x < 2 ^ 1024"
  shows "ulp_exponent (2 powi j * x) = ulp_exponent x + j"
proof (rule ulp_exponent_eqI)
  let ?e = "ulp_exponent x"
  have k: "(0::real) < 2 powi j" by simp
  have below: "2 powi (?e + 52) \<le> x"
  proof (cases "- 1074 < ?e")
    case True
    then show ?thesis by (rule ulp_exponent_lower)
  next
    case False
    with ulp_exponent_range(1)[of x] have "?e = - 1074" by simp
    with lo show ?thesis by simp
  qed
  have above: "x < 2 powi (?e + 53)"
  proof (cases "?e < 971")
    case True
    then show ?thesis by (rule ulp_exponent_upper)
  next
    case False
    with ulp_exponent_range(2)[of x] have "?e = 971" by simp
    with hi show ?thesis by simp
  qed
  from below k have sb: "2 powi (?e + j + 52) \<le> 2 powi j * x"
    by (simp add: power_int_add mult.commute mult_left_mono)
  from above k have sa: "2 powi j * x < 2 powi (?e + j + 53)"
    by (simp add: power_int_add mult.commute mult_strict_left_mono)
  from lo' sa have "(2::real) powi (- 1022) < 2 powi (?e + j + 53)" by simp
  then have "- 1022 < ?e + j + 53" by (rule pow2_less_imp_less)
  then show "- 1074 \<le> ?e + j" by simp
  from sb hi' have "(2::real) powi (?e + j + 52) < 2 powi 1024" by simp
  then have "?e + j + 52 < 1024" by (rule pow2_less_imp_less)
  then show "?e + j \<le> 971" by simp
  from sb show "2 powi (?e + j + 52) \<le> 2 powi j * x" .
  from sa show "2 powi j * x < 2 powi (?e + j + 53)" .
qed

lemma round_value_scale:
  assumes "2 powi (- 1022) \<le> x" and "x < 2 ^ 1024"
    and "2 powi (- 1022) \<le> 2 powi j * x" and "2 powi j * x < 2 ^ 1024"
  shows "round_value (2 powi j * x) = 2 powi j * round_value x"
proof -
  have "2 powi j * x / 2 powi (ulp_exponent x + j) = x / 2 powi (ulp_exponent x)"
    by (simp add: power_int_add)
  then show ?thesis
    by (simp add: round_value_def Let_def ulp_exponent_scale[OF assms] power_int_add)
qed

lemma round_value_no_overflow:
  assumes "x < 2 ^ 1024 - 2 ^ 970"
  shows "round_value x < 2 ^ 1024"
proof -
  from assms have "\<not> 2 ^ 1024 - 2 ^ 970 \<le> x" by (simp only: not_le)
  then have "\<not> 2 ^ 1024 \<le> round_value x" using round_value_overflow_iff[of x] by blast
  then show ?thesis by (simp only: not_le)
qed

lemma round_double_scale:
  assumes "in_normal_range x" and "in_normal_range (2 powi j * x)"
  shows "\<exists>v. round_double x = Finite v \<and> round_double (2 powi j * x) = Finite (2 powi j * v)"
proof -
  from assms(1) have x: "2 powi (- 1022) \<le> x" "x < 2 ^ 1024 - 2 ^ 970"
    unfolding in_normal_range_def by blast+
  from assms(2) have kx: "2 powi (- 1022) \<le> 2 powi j * x" "2 powi j * x < 2 ^ 1024 - 2 ^ 970"
    unfolding in_normal_range_def by blast+
  have "(2::real) ^ 1024 - 2 ^ 970 \<le> 2 ^ 1024" by simp
  with x(2) kx(2) have b: "x < 2 ^ 1024" "2 powi j * x < 2 ^ 1024"
    by (blast intro: less_le_trans)+
  from x(2) have 1: "round_value x < 2 ^ 1024" by (rule round_value_no_overflow)
  from kx(2) have 2: "round_value (2 powi j * x) < 2 ^ 1024" by (rule round_value_no_overflow)
  from 1 2 show ?thesis
    by (simp add: round_double_def Let_def round_value_scale[OF x(1) b(1) kx(1) b(2)])
qed

lemma round_double_small_int:
  assumes "1 \<le> d" and "d < 2 ^ 53"
  shows "round_double (real_of_int d) = Finite (real_of_int d)"
proof -
  let ?e = "ulp_exponent (real_of_int d)"
  have e: "?e \<le> 0"
  proof (rule ccontr)
    assume "\<not> ?e \<le> 0"
    then have pos: "0 < ?e" by simp
    then have "- 1074 < ?e" by simp
    then have "2 powi (?e + 52) \<le> real_of_int d" by (rule ulp_exponent_lower)
    moreover from pos have "(2::real) powi 53 \<le> 2 powi (?e + 52)" by (intro pow2_mono) simp
    moreover from assms(2) have "real_of_int d < 2 ^ 53"
      using of_int_less_iff[of d "2 ^ 53", where ?'a = real] by simp
    ultimately show False by simp
  qed
  then have "(2::real) powi ?e = 1 / 2 ^ nat (- ?e)"
    by (metis power_int_minus_divide power_int_of_nat int_nat_eq minus_minus neg_0_le_iff_le)
  then have "real_of_int d / 2 powi ?e = of_int (d * 2 ^ nat (- ?e))" by simp
  then have "round_half_even (real_of_int d / 2 powi ?e) = d * 2 ^ nat (- ?e)"
    by (simp only: round_half_even_of_int)
  then have v: "round_value (real_of_int d) = real_of_int d"
    using \<open>(2::real) powi ?e = 1 / 2 ^ nat (- ?e)\<close> by (simp add: round_value_def Let_def)
  from assms(2) have "real_of_int d < 2 ^ 1024"
    using of_int_less_iff[of d "2 ^ 1024", where ?'a = real] by simp
  with v show ?thesis by (simp add: round_double_def Let_def)
qed

lemma unit_price_double_scale:
  assumes d: "1 \<le> d" "d < 2 ^ 53" and s: "0 < s"
    and x: "in_normal_range (p * real_of_int d)"
    and kx: "in_normal_range (2 powi j * p * real_of_int d)"
  shows "unit_price_double (2 powi j * p) d (2 powi j * s) = unit_price_double p d s"
proof -
  from d have dd: "round_double (real_of_int d) = Finite (real_of_int d)"
    by (rule round_double_small_int)
  from kx have kx': "in_normal_range (2 powi j * (p * real_of_int d))" by (simp add: mult.assoc)
  from round_double_scale[OF x kx'] obtain v
    where v: "round_double (p * real_of_int d) = Finite v"
      and kv: "round_double (2 powi j * p * real_of_int d) = Finite (2 powi j * v)"
    by (auto simp: mult.assoc)
  have "2 powi j * v / (2 powi j * s) = v / s" by simp
  with s dd v kv show ?thesis by (simp add: unit_price_double_def)
qed

text \<open>
  The constructor of the model and the double arithmetic raise the same exceptions: the
  exact arithmetic only idealises the value.
\<close>

lemma GroceryPrice_init_errors_double:
  assumes "0 \<le> d"
  shows "GroceryPrice_init n ts s d u b p = Inl e \<longleftrightarrow> unit_price_double p d s = Inl e"
proof (cases "double_overflow \<le> d")
  case True
  with assms have "round_double (real_of_int d) = Inf" "double_overflow \<le> \<bar>d\<bar>"
    by (simp_all add: round_double_int)
  then show ?thesis
    by (simp add: GroceryPrice_init_def int_as_double_def unit_price_double_def)
next
  case False
  with assms have a: "\<not> double_overflow \<le> \<bar>d\<bar>" by simp
  from False obtain dd where "round_double (real_of_int d) = Finite dd"
    using round_double_int[of d] by (cases "round_double (real_of_int d)") simp_all
  with a show ?thesis
    by (auto simp: GroceryPrice_init_def int_as_double_def py_truediv_def unit_price_double_def)
qed

subsection \<open>The claim on scaling and monotonicity\<close>

lemma round_double_eval:
  assumes "- 1074 \<le> j" "j \<le> 971"
    and "- 1074 < j \<Longrightarrow> 2 powi (j + 52) \<le> x"
    and "j < 971 \<Longrightarrow> x < 2 powi (j + 53)"
    and "round_half_even (x / 2 powi j) = n"
    and "of_int n * 2 powi j < (2::real) ^ 1024"
  shows "round_double x = Finite (of_int n * 2 powi j)"
proof -
  from assms(1-4) have "ulp_exponent x = j" by (rule ulp_exponent_eqI)
  with assms(5,6) show ?thesis by (simp add: round_double_def round_value_def Let_def)
qed

lemma round_3: "round_double 3 = Finite 3"
  using round_double_eval[where x = 3 and j = "- 51" and n = "3 * 2 ^ 51"]
  by (simp add: round_half_even_def)

lemma round_p3: "round_double ((1 + 1 / 2 ^ 50) * 3) = Finite (3 + 6 / 2 ^ 51)"
  using round_double_eval[where x = "(1 + 1 / 2 ^ 50) * 3" and j = "- 51" and n = "3 * 2 ^ 51 + 6"]
  by (simp add: round_half_even_def)

lemma round_q1: "round_double ((3 + 6 / 2 ^ 51) / 1) = Finite (3 + 6 / 2 ^ 51)"
  using round_double_eval[where x = "3 + 6 / 2 ^ 51" and j = "- 51" and n = "3 * 2 ^ 51 + 6"]
  by (simp add: round_half_even_def)

lemma round_3p3: "round_double (3 * (1 + 1 / 2 ^ 50) * 3) = Finite (9 + 4 / 2 ^ 49)"
  using round_double_eval[where x = "3 * (1 + 1 / 2 ^ 50) * 3" and j = "- 49" and n = "9 * 2 ^ 49 + 4"]
  by (simp add: round_half_even_def)

lemma round_q3: "round_double ((9 + 4 / 2 ^ 49) / (3 * 1)) = Finite (3 + 5 / 2 ^ 51)"
  using round_double_eval[where x = "(9 + 4 / 2 ^ 49) / 3" and j = "- 51" and n = "3 * 2 ^ 51 + 5"]
  by (simp add: round_half_even_def)

lemma round_p: "round_double (1 + 1 / 2 ^ 50) = Finite (1 + 1 / 2 ^ 50)"
  using round_double_eval[where x = "1 + 1 / 2 ^ 50" and j = "- 52" and n = "2 ^ 52 + 4"]
  by (simp add: round_half_even_def)

lemma round_3p: "round_double (3 * (1 + 1 / 2 ^ 50)) = Finite (3 * (1 + 1 / 2 ^ 50))"
  using round_double_eval[where x = "3 * (1 + 1 / 2 ^ 50)" and j = "- 51" and n = "3 * 2 ^ 51 + 6"]
  by (simp add: round_half_even_def)

lemma round_double_1000: "round_double 1000 = Finite 1000"
  using round_double_small_int[of 1000] by simp

lemma round_double_500: "round_double 500 = Finite 500"
  using round_double_small_int[of 500] by simp

lemma round_double_1: "round_double 1 = Finite 1"
  using round_double_small_int[of 1] by simp

text \<open>
  Claim C5 says that the unit price does not change when size and price are multiplied
  by the same positive factor. In double arithmetic it does. The price
  \<open>1 + 1 / 2 ^ 50\<close> and three times it are doubles; with denominator 3 and size 1 the
  code computes \<open>3 + 6 / 2 ^ 51\<close>, and with three times the price and three times
  the size it computes \<open>3 + 5 / 2 ^ 51\<close>: the two products round differently.
\<close>

theorem scaling_changes_unit_price:
  "round_double (1 + 1 / 2 ^ 50) = Finite (1 + 1 / 2 ^ 50) \<and>
   round_double (3 * (1 + 1 / 2 ^ 50)) = Finite (3 * (1 + 1 / 2 ^ 50)) \<and>
   unit_price_double (1 + 1 / 2 ^ 50) 3 1 = Inr (Finite (3 + 6 / 2 ^ 51)) \<and>
   unit_price_double (3 * (1 + 1 / 2 ^ 50)) 3 (3 * 1) = Inr (Finite (3 + 5 / 2 ^ 51)) \<and>
   unit_price_double (3 * (1 + 1 / 2 ^ 50)) 3 (3 * 1) \<noteq> unit_price_double (1 + 1 / 2 ^ 50) 3 1"
proof -
  have 1: "unit_price_double (1 + 1 / 2 ^ 50) 3 1 = Inr (Finite (3 + 6 / 2 ^ 51))"
    using round_3 round_p3 round_q1 by (simp add: unit_price_double_def)
  have 2: "unit_price_double (3 * (1 + 1 / 2 ^ 50)) 3 (3 * 1) = Inr (Finite (3 + 5 / 2 ^ 51))"
    using round_3 round_3p3 round_q3 by (simp add: unit_price_double_def)
  from 1 2 round_p round_3p show ?thesis by simp
qed

text \<open>
  Claim C5, amended. For a price \<open>\<ge> 0\<close>, a size \<open>> 0\<close> and a denominator \<open>\<ge> 1\<close>
  that converts to a double, the code computes a unit price; a larger price never gives
  a smaller unit price and a larger size never gives a larger one (an infinite result
  counts as the largest). The unit price is unchanged when price and size are both
  multiplied by the same power of two, provided the denominator is below \<open>2 ^ 53\<close> and
  price, size and the product \<open>price * denominator\<close> are normal doubles before and
  after; for other factors rounding can change it.
\<close>

theorem unit_price_double_monotone:
  assumes "0 \<le> p" and "0 < s" and "1 \<le> d" and "d < double_overflow"
  shows "\<exists>v. unit_price_double p d s = Inr v \<and>
           (\<forall>p'. p \<le> p' \<longrightarrow>
              (\<exists>v'. unit_price_double p' d s = Inr v' \<and> double_le v v')) \<and>
           (\<forall>s'. s \<le> s' \<longrightarrow>
              (\<exists>v'. unit_price_double p d s' = Inr v' \<and> double_le v' v)) \<and>
           (\<forall>j. d < 2 ^ 53 \<and> in_normal_range p \<and> in_normal_range s \<and>
                in_normal_range (p * real_of_int d) \<and>
                in_normal_range (2 powi j * p) \<and> in_normal_range (2 powi j * s) \<and>
                in_normal_range (2 powi j * p * real_of_int d) \<longrightarrow>
                unit_price_double (2 powi j * p) d (2 powi j * s) = Inr v)"
proof -
  from assms(4) obtain dd where dd: "round_double (real_of_int d) = Finite dd"
    using round_double_int[of d] by (cases "round_double (real_of_int d)") simp_all
  from assms(3) have "0 \<le> real_of_int d" by simp
  with dd have dd0: "0 \<le> dd" by (rule round_double_Finite_nonneg)
  let ?prod = "\<lambda>p. round_double (p * dd)"
  let ?quot = "\<lambda>a s. case a of Inf \<Rightarrow> Inf | Finite x \<Rightarrow> round_double (x / s)"
  have up: "unit_price_double q d t = Inr (?quot (?prod q) t)" if "t \<noteq> 0" for q t
    using that dd by (simp add: unit_price_double_def)
  have price: "double_le (?quot (?prod p) s) (?quot (?prod p') s)" if "p \<le> p'" for p'
  proof -
    from that dd0 have "p * dd \<le> p' * dd" by (simp add: mult_right_mono)
    then have "double_le (?prod p) (?prod p')" by (rule round_double_mono)
    then show ?thesis using assms(2) by (rule quotient_mono)
  qed
  have size: "double_le (?quot (?prod p) s') (?quot (?prod p) s)" if "s \<le> s'" for s'
  proof (cases "?prod p")
    case Inf
    then show ?thesis by simp
  next
    case (Finite x)
    from assms(1) dd0 have "0 \<le> p * dd" by simp
    with Finite have "0 \<le> x" by (rule round_double_Finite_nonneg)
    with that assms(2) have "x / s' \<le> x / s" by (simp add: frac_le)
    then show ?thesis unfolding Finite by (simp add: round_double_mono)
  qed
  have scale: "unit_price_double (2 powi j * p) d (2 powi j * s) = Inr (?quot (?prod p) s)"
    if "d < 2 ^ 53" "in_normal_range (p * real_of_int d)"
      "in_normal_range (2 powi j * p * real_of_int d)" for j
    using unit_price_double_scale[OF assms(3) that(1) assms(2) that(2,3)] assms(2)
    by (simp add: up)
  from assms(2) have "s \<noteq> 0" by simp
  moreover have "s' \<noteq> 0" if "s \<le> s'" for s' using that assms(2) by simp
  ultimately show ?thesis using price size scale by (simp add: up)
qed

text \<open>
  The Aldi record of the Milk example: price 0.50, denominator 1000, size 500, then the
  price doubled, the size doubled, and both doubled.
\<close>

theorem unit_price_double_monotone_witness:
  "unit_price_double (1 / 2) 1000 500 = Inr (Finite 1) \<and>
   (\<exists>v'. unit_price_double 1 1000 500 = Inr v' \<and> double_le (Finite 1) v') \<and>
   (\<exists>v'. unit_price_double (1 / 2) 1000 1000 = Inr v' \<and> double_le v' (Finite 1)) \<and>
   unit_price_double (2 powi 1 * (1 / 2)) 1000 (2 powi 1 * 500) = Inr (Finite 1)"
proof -
  have h: "(0::real) \<le> 1 / 2" "(0::real) < 500" "(1::int) \<le> 1000" "(1000::int) < double_overflow"
    by (simp_all add: double_overflow_def)
  have e: "unit_price_double (1 / 2) 1000 500 = Inr (Finite 1)"
    by (simp add: unit_price_double_def round_double_1000 round_double_500 round_double_1)
  from unit_price_double_monotone[OF h] e
  have mp: "\<forall>p'. 1 / 2 \<le> p' \<longrightarrow>
              (\<exists>v'. unit_price_double p' 1000 500 = Inr v' \<and> double_le (Finite 1) v')"
    and ms: "\<forall>s'. 500 \<le> s' \<longrightarrow>
              (\<exists>v'. unit_price_double (1 / 2) 1000 s' = Inr v' \<and> double_le v' (Finite 1))"
    and sc: "\<forall>j. (1000::int) < 2 ^ 53 \<and> in_normal_range (1 / 2) \<and> in_normal_range 500 \<and>
                in_normal_range (1 / 2 * real_of_int 1000) \<and>
                in_normal_range (2 powi j * (1 / 2)) \<and> in_normal_range (2 powi j * 500) \<and>
                in_normal_range (2 powi j * (1 / 2) * real_of_int 1000) \<longrightarrow>
                unit_price_double (2 powi j * (1 / 2)) 1000 (2 powi j * 500) = Inr (Finite 1)"
    by auto
  from mp have 1: "\<exists>v'. unit_price_double 1 1000 500 = Inr v' \<and> double_le (Finite 1) v'"
    by simp
  from ms have 2: "\<exists>v'. unit_price_double (1 / 2) 1000 1000 = Inr v' \<and> double_le v' (Finite 1)"
    by simp
  have "(1000::int) < 2 ^ 53 \<and> in_normal_range (1 / 2) \<and> in_normal_range 500 \<and>
        in_normal_range (1 / 2 * real_of_int 1000) \<and>
        in_normal_range (2 powi 1 * (1 / 2)) \<and> in_normal_range (2 powi 1 * 500) \<and>
        in_normal_range (2 powi 1 * (1 / 2) * real_of_int 1000)"
    by (simp add: in_normal_range_def)
  with sc have 3: "unit_price_double (2 powi 1 * (1 / 2)) 1000 (2 powi 1 * 500) = Inr (Finite 1)"
    by blast
  from e 1 2 3 show ?thesis by blast
qed

section \<open>Properties of the tag filter\<close>

lemma length_intersect1d: "length (intersect1d a b) = card (set a \<inter> set b)"
proof -
  have "set (filter (\<lambda>x. x \<in> set b) a) = set a \<inter> set b" by auto
  then show ?thesis
    by (simp add: intersect1d_def length_remdups_card_conv del: set_filter)
qed

lemma filter_items_mem:
  "selected_tags \<noteq> [] \<Longrightarrow>
   r \<in> set (filter_items prices selected_item selected_tags) \<longleftrightarrow>
   (\<exists>k items. (k, items) \<in> set prices \<and> (selected_item = [] \<or> k = selected_item) \<and>
      r \<in> set items \<and> card (set (tags r) \<inter> set selected_tags) = length selected_tags)"
  by (induction prices selected_item selected_tags rule: filter_items.induct)
     (auto simp: tag_match_def length_intersect1d)

text \<open>
  Claim C4. With a non-empty list of selected tags, a record is in the result of the
  filter exactly when it is in a group that the item selection lets through and the
  intersection of its tags with the selected tags, as sets, has as many elements as tags
  were selected. So with the tags \<open>A\<close> and \<open>B\<close> selected, a record that does not
  carry \<open>B\<close> is never returned.
\<close>

theorem filter_items_tags_and:
  assumes "selected_tags \<noteq> []"
  shows "(r \<in> set (filter_items ps selected_item selected_tags) \<longleftrightarrow>
            (\<exists>k items. (k, items) \<in> set ps \<and> (selected_item = [] \<or> k = selected_item) \<and>
               r \<in> set items \<and>
               card (set (tags r) \<inter> set selected_tags) = length selected_tags)) \<and>
         (B \<notin> set (tags r) \<longrightarrow> r \<notin> set (filter_items ps selected_item [A, B]))"
proof
  show "r \<in> set (filter_items ps selected_item selected_tags) \<longleftrightarrow>
            (\<exists>k items. (k, items) \<in> set ps \<and> (selected_item = [] \<or> k = selected_item) \<and>
               r \<in> set items \<and>
               card (set (tags r) \<inter> set selected_tags) = length selected_tags)"
    using assms by (rule filter_items_mem)
next
  show "B \<notin> set (tags r) \<longrightarrow> r \<notin> set (filter_items ps selected_item [A, B])"
  proof
    assume B: "B \<notin> set (tags r)"
    then have "set (tags r) \<inter> set [A, B] \<subseteq> {A}" by auto
    then have "card (set (tags r) \<inter> set [A, B]) \<le> card {A}"
      by (intro card_mono) simp_all
    then have "card (set (tags r) \<inter> set [A, B]) \<noteq> length [A, B]" by simp
    then show "r \<notin> set (filter_items ps selected_item [A, B])"
      by (simp add: filter_items_mem)
  qed
qed

text \<open>
  Three items tagged noodles and udon, noodles, and rice: the first passes the tag
  noodles, the third does not, and the second does not pass noodles and udon together.
\<close>

theorem filter_items_tags_and_witness:
  "tagged ''Udon'' [''noodles'', ''udon''] \<in> set (filter_items noodle_catalogue [] [''noodles'']) \<and>
   tagged ''Rice'' [''rice''] \<notin> set (filter_items noodle_catalogue [] [''noodles'']) \<and>
   tagged ''Ramen'' [''noodles''] \<notin> set (filter_items noodle_catalogue [] [''noodles'', ''udon''])"
proof -
  let ?udon = "tagged ''Udon'' [''noodles'', ''udon'']"
  let ?rice = "tagged ''Rice'' [''rice'']"
  let ?ramen = "tagged ''Ramen'' [''noodles'']"
  have h: "[''noodles''] \<noteq> []" by simp
  have "(''Udon'', [?udon]) \<in> set noodle_catalogue \<and> ?udon \<in> set [?udon] \<and>
        card (set (tags ?udon) \<inter> set [''noodles'']) = length [''noodles'']"
    by (simp add: noodle_catalogue_def tagged_def)
  then have "\<exists>k items. (k, items) \<in> set noodle_catalogue \<and> ([] = [] \<or> k = []) \<and>
      ?udon \<in> set items \<and> card (set (tags ?udon) \<inter> set [''noodles'']) = length [''noodles'']"
    by blast
  with filter_items_tags_and[OF h, where r = ?udon and ps = noodle_catalogue and selected_item = "[]"]
  have 1: "?udon \<in> set (filter_items noodle_catalogue [] [''noodles''])" by blast
  have "card (set (tags ?rice) \<inter> set [''noodles'']) \<noteq> length [''noodles'']"
    by (simp add: tagged_def)
  with filter_items_tags_and[OF h, where r = ?rice and ps = noodle_catalogue and selected_item = "[]"]
  have 2: "?rice \<notin> set (filter_items noodle_catalogue [] [''noodles''])" by blast
  have "''udon'' \<notin> set (tags ?ramen)" by (simp add: tagged_def)
  with filter_items_tags_and[OF h, where r = ?ramen and ps = noodle_catalogue
      and selected_item = "[]" and A = "''noodles''" and B = "''udon''"]
  have 3: "?ramen \<notin> set (filter_items noodle_catalogue [] [''noodles'', ''udon''])" by blast
  from 1 2 3 show ?thesis by simp
qed

section \<open>Properties of the catalogue\<close>

subsection \<open>The unit price of every loaded record agrees with its fields\<close>














subsection \<open>Rows without prices\<close>

lemma ensure_item_keys: "fst ` set (ensure_item ps k) = insert k (fst ` set ps)"
  by (auto simp: ensure_item_def map_of_eq_None_iff)

lemma append_price_keys:
  assumes "append_price ps k g = Inr ps'"
  shows "fst ` set ps' = fst ` set ps"
proof -
  from assms obtain items where m: "map_of ps k = Some items"
    and ps': "ps' = AList.update k (items @ [g]) ps"
    by (auto simp: append_price_def split: option.splits)
  from m have "k \<in> fst ` set ps" by (metis domI dom_map_of_conv_image_fst)
  then show ?thesis unfolding ps' by (auto simp: AList.dom_update)
qed

lemma append_price_other:
  "append_price ps g x = Inr ps' \<Longrightarrow> g \<noteq> k \<Longrightarrow> map_of ps' k = map_of ps k"
  by (auto simp: append_price_def AList.update_conv' split: option.splits)

lemma cell_step_keys:
  assumes "cell_step pf pn h row g opts i ps = Inr ps'"
  shows "fst ` set ps' = fst ` set ps"
proof -
  from assms have "ps' = ps \<or> (\<exists>x. append_price ps g x = Inr ps')"
    by (auto simp: cell_step_def ebind_def split: sum.splits if_splits)
  then show ?thesis using append_price_keys by blast
qed

lemma cell_step_other:
  "cell_step pf pn h row g opts i ps = Inr ps' \<Longrightarrow> g \<noteq> k \<Longrightarrow> map_of ps' k = map_of ps k"
  by (auto simp: cell_step_def ebind_def split: sum.splits if_splits dest: append_price_other)

lemma cells_loop_keys:
  "cells_loop pf pn h row g opts is ps = Inr ps' \<Longrightarrow> fst ` set ps' = fst ` set ps"
proof (induction "is" arbitrary: ps)
  case Nil
  then show ?case by simp
next
  case (Cons i rest)
  from Cons.prems obtain ps1 where s: "cell_step pf pn h row g opts i ps = Inr ps1"
    and l: "cells_loop pf pn h row g opts rest ps1 = Inr ps'"
    by (auto split: sum.splits)
  from Cons.IH[OF l] cell_step_keys[OF s] show ?case by simp
qed

lemma cells_loop_other:
  "cells_loop pf pn h row g opts is ps = Inr ps' \<Longrightarrow> g \<noteq> k \<Longrightarrow> map_of ps' k = map_of ps k"
  by (induction "is" arbitrary: ps) (auto split: sum.splits dest: cell_step_other)

lemma cells_loop_blank:
  "(\<And>i. i \<in> set is \<Longrightarrow> py_index row (5 + i) = Inr []) \<Longrightarrow>
   cells_loop pf pn h row g opts is ps = Inr ps"
  by (induction "is") (auto simp: cell_step_def ebind_def)

lemma blank_prices_cells:
  assumes "blank_prices row" and "i \<in> set [0 ..< length row - 5]"
  shows "py_index row (5 + i) = Inr []"
proof -
  from assms(2) have i: "i < length (drop 5 row)" by simp
  then have "drop 5 row ! i \<in> set (drop 5 row)" by (rule nth_mem)
  with assms(1) have "drop 5 row ! i = []" by (simp add: blank_prices_def)
  with i show ?thesis by (simp add: py_index_def)
qed

lemma cells_loop_blank_row:
  "blank_prices row \<Longrightarrow>
   cells_loop pf pn h row g opts [0 ..< length row - 5] ps = Inr ps"
  by (rule cells_loop_blank) (rule blank_prices_cells)

text \<open>
  A row with at least two cells and no price never raises: its size and denominator
  cells are not read.
\<close>

lemma row_step_blank:
  assumes "2 \<le> length row" and "blank_prices row"
  shows "row_step pf pn h row ps = Inr (ensure_item ps (row ! 0))"
proof -
  from assms(1) have "py_index row 0 = Inr (row ! 0)" "py_index row 1 = Inr (row ! 1)"
    by (auto simp: py_index_def)
  with assms(2) show ?thesis
    by (simp add: row_step_def ebind_def cells_loop_blank_row)
qed

lemma row_step_keys:
  assumes "row_step pf pn h row ps = Inr ps'"
  shows "\<exists>item. py_index row 0 = Inr item \<and> fst ` set ps' = insert item (fst ` set ps)"
proof -
  from assms obtain item opts where it: "py_index row 0 = Inr item"
    and cl: "cells_loop pf pn h row item opts [0 ..< length row - 5] (ensure_item ps item) = Inr ps'"
    by (auto simp: row_step_def ebind_def split: sum.splits)
  from cells_loop_keys[OF cl] it show ?thesis by (simp add: ensure_item_keys)
qed

lemma rows_loop_keys:
  "rows_loop pf pn h rws ps = Inr ps' \<Longrightarrow>
   fst ` set ps \<subseteq> fst ` set ps' \<and>
   (\<forall>row \<in> set rws. \<exists>item. py_index row 0 = Inr item \<and> item \<in> fst ` set ps')"
proof (induction rws arbitrary: ps)
  case Nil
  then show ?case by simp
next
  case (Cons row rest)
  from Cons.prems obtain ps1 where s: "row_step pf pn h row ps = Inr ps1"
    and l: "rows_loop pf pn h rest ps1 = Inr ps'"
    by (auto split: sum.splits)
  from row_step_keys[OF s] obtain item where it: "py_index row 0 = Inr item"
    and k1: "fst ` set ps1 = insert item (fst ` set ps)" by blast
  from Cons.IH[OF l] have sub: "fst ` set ps1 \<subseteq> fst ` set ps'"
    and rest: "\<forall>row \<in> set rest. \<exists>item. py_index row 0 = Inr item \<and> item \<in> fst ` set ps'"
    by blast+
  from k1 sub have "fst ` set ps \<subseteq> fst ` set ps'" "item \<in> fst ` set ps'" by auto
  with it rest show ?case by auto
qed

lemma row_step_success: "row_step pf pn h row ps = Inr ps' \<Longrightarrow> 2 \<le> length row"
  by (auto simp: row_step_def ebind_def py_index_def split: sum.splits if_splits)

lemma rows_loop_success:
  "rows_loop pf pn h rws ps = Inr ps' \<Longrightarrow> row \<in> set rws \<Longrightarrow> 2 \<le> length row"
  by (induction rws arbitrary: ps) (auto split: sum.splits dest: row_step_success)

lemma row_step_no_prices:
  assumes s: "row_step pf pn h row ps = Inr ps'"
    and b: "py_index row 0 = Inr k \<longrightarrow> blank_prices row"
    and n: "no_prices ps k"
  shows "no_prices ps' k"
proof -
  from s obtain item c1 where it: "py_index row 0 = Inr item" and c1: "py_index row 1 = Inr c1"
    and cl: "cells_loop pf pn h row item (split_on CHR ''|'' c1) [0 ..< length row - 5]
               (ensure_item ps item) = Inr ps'"
    by (auto simp: row_step_def ebind_def split: sum.splits)
  show ?thesis
  proof (cases "item = k")
    case True
    with it b have "blank_prices row" by simp
    then have "cells_loop pf pn h row item (split_on CHR ''|'' c1) [0 ..< length row - 5]
               (ensure_item ps item) = Inr (ensure_item ps item)"
      by (rule cells_loop_blank_row)
    with cl have "ps' = ensure_item ps k" using True by simp
    with n show ?thesis by (auto simp: no_prices_def ensure_item_def map_add_def)
  next
    case False
    from cells_loop_other[OF cl False] have "map_of ps' k = map_of (ensure_item ps item) k" .
    also have "\<dots> = map_of ps k"
      using False by (auto simp: ensure_item_def map_add_def split: option.splits)
    finally show ?thesis using n by (simp add: no_prices_def)
  qed
qed

lemma rows_loop_no_prices:
  "rows_loop pf pn h rws ps = Inr ps' \<Longrightarrow>
   \<forall>r \<in> set rws. py_index r 0 = Inr k \<longrightarrow> blank_prices r \<Longrightarrow>
   no_prices ps k \<Longrightarrow> no_prices ps' k"
proof (induction rws arbitrary: ps)
  case Nil
  then show ?case by simp
next
  case (Cons row rest)
  from Cons.prems(1) obtain ps1 where s: "row_step pf pn h row ps = Inr ps1"
    and l: "rows_loop pf pn h rest ps1 = Inr ps'"
    by (auto split: sum.splits)
  from Cons.prems(2) have "py_index row 0 = Inr k \<longrightarrow> blank_prices row" by simp
  from row_step_no_prices[OF s this Cons.prems(3)] have "no_prices ps1 k" .
  with Cons.IH[OF l] Cons.prems(2) show ?case by simp
qed

text \<open>
  Claim C10. When a data row has only blank price cells, its step of the load only
  makes sure that the item name has an entry, and the loaded catalogue has an entry for
  the name, so the name is among \<^verbatim>\<open>grocery_items\<close> and among the options of the
  item select box; when no row of that name has a price, the entry is the empty
  sequence.
\<close>

theorem blank_row_creates_entry:
  assumes rd: "read_prices_from_sheet pf pn (header # rws) = Inr ps"
    and row: "row \<in> set rws"
    and blank: "blank_prices row"
  shows "\<exists>item. py_index row 0 = Inr item \<and>
           row_step pf pn header row ps0 = Inr (ensure_item ps0 item) \<and>
           item \<in> set (grocery_items ps) \<and>
           item \<in> set (selectbox_options ps) \<and>
           ((\<forall>r \<in> set rws. py_index r 0 = Inr item \<longrightarrow> blank_prices r) \<longrightarrow>
              map_of ps item = Some [])"
proof -
  from rd have l: "rows_loop pf pn header rws [] = Inr ps"
    by (simp add: read_prices_from_sheet_def)
  from rows_loop_keys[OF l] row obtain item where it: "py_index row 0 = Inr item"
    and k: "item \<in> fst ` set ps" by blast
  from rows_loop_success[OF l row] have "2 \<le> length row" .
  from row_step_blank[OF this blank] it
  have st: "row_step pf pn header row ps0 = Inr (ensure_item ps0 item)"
    by (simp add: py_index_def split: if_splits)
  have "map_of ps item = Some []"
    if a: "\<forall>r \<in> set rws. py_index r 0 = Inr item \<longrightarrow> blank_prices r"
  proof -
    have "no_prices ps item"
      by (rule rows_loop_no_prices[OF l a]) (simp add: no_prices_def)
    moreover from k have "map_of ps item \<noteq> None" by (simp add: map_of_eq_None_iff)
    ultimately show ?thesis by (simp add: no_prices_def)
  qed
  with it st k show ?thesis by (auto simp: grocery_items_def selectbox_options_def)
qed

text \<open>The sheet with a Milk row and a Bread row without prices.\<close>

theorem blank_row_creates_entry_witness:
  "row_step decimal_float decimal_int
     [''Grocery Item'', ''Options'', ''Size'', ''Denominator'', ''Unit'', ''Tesco'', ''Aldi'']
     [''Bread'', ''bakery'', ''n/a'', [], ''g'', [], []] [(''Milk'', [tesco_milk])] =
     Inr [(''Milk'', [tesco_milk]), (''Bread'', [])] \<and>
   ''Bread'' \<in> set (grocery_items [(''Milk'', [tesco_milk]), (''Bread'', [])]) \<and>
   ''Bread'' \<in> set (selectbox_options [(''Milk'', [tesco_milk]), (''Bread'', [])]) \<and>
   map_of [(''Milk'', [tesco_milk]), (''Bread'', [])] ''Bread'' = Some []"
proof -
  let ?header = "[''Grocery Item'', ''Options'', ''Size'', ''Denominator'', ''Unit'', ''Tesco'', ''Aldi'']"
  let ?milk = "[''Milk'', ''dairy'', ''1000'', ''1000'', ''ml'', ''1.20'', []]"
  let ?bread = "[''Bread'', ''bakery'', ''n/a'', [], ''g'', [], []]"
  let ?ps = "[(''Milk'', [tesco_milk]), (''Bread'', [])]"
  have rd: "read_prices_from_sheet decimal_float decimal_int (?header # [?milk, ?bread]) = Inr ?ps"
    using blank_row_sheet_read by (simp add: blank_row_sheet_def)
  have row: "?bread \<in> set [?milk, ?bread]" by simp
  have blank: "blank_prices ?bread" by (simp add: blank_prices_def)
  from blank_row_creates_entry[OF rd row blank, of "[(''Milk'', [tesco_milk])]"]
  obtain item where it: "py_index ?bread 0 = Inr item"
    and st: "row_step decimal_float decimal_int ?header ?bread [(''Milk'', [tesco_milk])] =
               Inr (ensure_item [(''Milk'', [tesco_milk])] item)"
    and g: "item \<in> set (grocery_items ?ps)" and sb: "item \<in> set (selectbox_options ?ps)"
    and e: "(\<forall>r \<in> set [?milk, ?bread]. py_index r 0 = Inr item \<longrightarrow> blank_prices r) \<longrightarrow>
              map_of ?ps item = Some []"
    by blast
  from it have item: "item = ''Bread''" by (simp add: py_index_def)
  have "\<forall>r \<in> set [?milk, ?bread]. py_index r 0 = Inr ''Bread'' \<longrightarrow> blank_prices r"
    by (simp add: py_index_def blank_prices_def)
  with e have "map_of ?ps ''Bread'' = Some []" unfolding item by blast
  moreover from st have "row_step decimal_float decimal_int ?header ?bread [(''Milk'', [tesco_milk])] = Inr ?ps"
    unfolding item by (simp add: ensure_item_def)
  ultimately show ?thesis using g sb unfolding item by blast
qed

section \<open>Properties of the forms\<close>

text \<open>
  A submitted branch form writes the sheet once, whatever the validation says, and a
  submitted item form whose name or unit is empty writes the unchanged data frame.
\<close>

lemma new_branch_form_writes:
  "writes (new_branch_form branch_name True st) = Suc (writes st)"
  by (simp add: new_branch_form_def reload_df_def show_message_def set_with_dataframe_def
        add_column_def Let_def)

lemma new_item_form_rejected_writes:
  "item_name = [] \<or> un = [] \<Longrightarrow>
   \<exists>st'. new_item_form item_name options sz den un True st = Inr st' \<and>
         writes st' = Suc (writes st) \<and> worksheet st' = df st"
  by (auto simp: new_item_form_def reload_df_def show_message_def set_with_dataframe_def)

text \<open>
  Claim C3 says that a rejected mutation issues no write. Adding the branch Tesco to a
  frame that has the column Tesco shows the error, then writes the sheet and shows the
  success message: the number of writes goes from 0 to 1. The item form does the same
  for an empty name and for an empty unit.
\<close>

theorem rejected_mutation_writes:
  "strip ''Tesco'' \<in> set (columns (df tesco_session)) \<and>
   writes tesco_session = 0 \<and>
   new_branch_form ''Tesco'' True tesco_session =
     \<lparr>df = tesco_frame, worksheet = tesco_frame, writes = 1, reads = 2,
      messages = [st_error ''Tesco already exists!'', st_success ''Sheet updated successfully!'']\<rparr> \<and>
   new_item_form [] ''dairy'' 1 1 ''l'' True tesco_session =
     Inr \<lparr>df = tesco_frame, worksheet = tesco_frame, writes = 1, reads = 2,
      messages = [st_error ''Item name cannot be empty!'', st_success ''Sheet updated successfully!'']\<rparr> \<and>
   new_item_form ''Oat Milk'' ''dairy'' 1 1 [] True tesco_session =
     Inr \<lparr>df = tesco_frame, worksheet = tesco_frame, writes = 1, reads = 2,
      messages = [st_error ''Unit cannot be empty!'', st_success ''Sheet updated successfully!'']\<rparr>"
  by (simp add: new_branch_form_def new_item_form_def reload_df_def show_message_def
        set_with_dataframe_def tesco_session_def tesco_frame_def strip_def is_space_def)

end
